theory Spec2Isabelle
  imports Complex_Main
begin

section \<open>Python values\<close>

text \<open>
  Python's unbounded integers are \<open>int\<close>. Time stamps (\<open>time.time()\<close>) and the
  quotients computed with \<open>/\<close> are Python floats; in the gesture loops, in
  \<open>contains_point\<close> and in the scroll bar they are modelled by exact reals, so a
  comparison such as \<open>dt < 0.2\<close> is the comparison of the exact values. The
  arithmetic of the slider is modelled with the rounding of binary64 (section Floats).
  A variable that may hold \<open>None\<close> is an \<open>option\<close>; an exception is a \<open>py_error\<close>.
\<close>

datatype py_error = IndexError | ZeroDivisionError | TypeError | OverflowError

text \<open>\<open>int(r)\<close> on a float: truncation toward zero.\<close>

definition py_int :: "real \<Rightarrow> int" where
  "py_int r = (if 0 \<le> r then \<lfloor>r\<rfloor> else \<lceil>r\<rceil>)"


subsection \<open>Floats\<close>

text \<open>
  A finite binary64 float is modelled by the real number it denotes. The position of the
  leading bit of a positive integer:
\<close>

function ilog2 :: "int \<Rightarrow> int" where
  "ilog2 n = (if n < 2 then 0 else 1 + ilog2 (n div 2))"
  by auto

termination ilog2
  by (relation "measure nat") auto

declare ilog2.simps [simp del]

text \<open>The binary exponent \<open>e\<close> of \<open>r \<noteq> 0\<close>, with \<open>2 ^ e \<le> \<bar>r\<bar> < 2 ^ (e + 1)\<close>.\<close>

definition exponent :: "real \<Rightarrow> int" where
  "exponent r =
     (if 1 \<le> \<bar>r\<bar> then ilog2 \<lfloor>\<bar>r\<bar>\<rfloor>
      else - (1 + ilog2 (\<lceil>1 / \<bar>r\<bar>\<rceil> - 1)))"

text \<open>Rounding to the nearest integer, a tie to the even one.\<close>

definition round_half_even :: "real \<Rightarrow> int" where
  "round_half_even x =
     (let f = \<lfloor>x\<rfloor>; d = x - of_int f
      in if d < 1 / 2 then f else if 1 / 2 < d then f + 1 else if even f then f else f + 1)"

text \<open>
  The float nearest to an exact result, as every float operation and conversion
  delivers it: a multiple of the quantum \<open>2 ^ (e - 52)\<close> (53 significant bits), where the
  exponent is at least \<open>- 1022\<close> (below, the subnormal floats share the quantum
  \<open>2 ^ (- 1074)\<close>), nearest to \<open>r\<close>, a tie going to the even multiple. The result is
  finite unless \<open>r\<close> reaches the middle between the largest float
  \<open>2 ^ 1024 - 2 ^ 971\<close> and \<open>2 ^ 1024\<close>.
\<close>

definition double_round :: "real \<Rightarrow> real" where
  "double_round r =
     (if r = 0 then 0
      else (let quantum = 2 powi (max (exponent r) (- 1022) - 52)
            in of_int (round_half_even (r / quantum)) * quantum))"

definition overflows :: "real \<Rightarrow> bool" where
  "overflows r = (2 ^ 1024 - 2 ^ 970 \<le> \<bar>r\<bar>)"

text \<open>
  \<open>a / b\<close> on two integers: the float nearest to the exact quotient;
  \<open>ZeroDivisionError\<close> for a zero divisor, \<open>OverflowError\<close> when the result is too
  large for a float.
\<close>

definition true_div :: "int \<Rightarrow> int \<Rightarrow> py_error + real" where
  "true_div a b =
     (if b = 0 then Inl ZeroDivisionError
      else if overflows (of_int a / of_int b) then Inl OverflowError
      else Inr (double_round (of_int a / of_int b)))"

text \<open>
  A number is an integer or a float. \<open>min(a, b)\<close> is \<open>b\<close> when \<open>b < a\<close> and otherwise
  \<open>a\<close>; \<open>max(a, b)\<close> is \<open>b\<close> when \<open>b > a\<close> and otherwise \<open>a\<close>; the comparison of an
  integer with a float is exact.
\<close>

datatype py_num = PyInt int | PyFloat real

fun num_val :: "py_num \<Rightarrow> real" where
  "num_val (PyInt n) = of_int n"
| "num_val (PyFloat r) = r"

definition py_min :: "py_num \<Rightarrow> py_num \<Rightarrow> py_num" where
  "py_min a b = (if num_val b < num_val a then b else a)"

definition py_max :: "py_num \<Rightarrow> py_num \<Rightarrow> py_num" where
  "py_max a b = (if num_val a < num_val b then b else a)"

text \<open>
  \<open>int(lo + normalized * extent)\<close> for integers \<open>lo\<close> and \<open>extent\<close>. With an integer
  \<open>normalized\<close> the arithmetic is exact. With a float, \<open>extent\<close> and then \<open>lo\<close> are
  converted to floats (\<open>OverflowError\<close> when too large), the product and the sum are
  rounded; an infinite product makes the sum infinite, and \<open>int\<close> of an infinite sum
  raises \<open>OverflowError\<close>.
\<close>

definition scaled_value :: "int \<Rightarrow> py_num \<Rightarrow> int \<Rightarrow> py_error + int" where
  "scaled_value lo normalized extent =
     (case normalized of
        PyInt n \<Rightarrow> Inr (lo + n * extent)
      | PyFloat q \<Rightarrow>
          (if overflows (of_int extent) \<or> overflows (of_int lo) then Inl OverflowError
           else (let product = q * double_round (of_int extent);
                     total = double_round (of_int lo) + double_round product
                 in if overflows product \<or> overflows total then Inl OverflowError
                    else Inr (py_int (double_round total)))))"
section \<open>touch\_ui.py: TouchHandler\<close>

text \<open>
  An evdev event carries a type, a code and a value. Only the codes the loops test are
  told apart.
\<close>

datatype abs_code =
  ABS_X | ABS_Y | ABS_MT_POSITION_X | ABS_MT_POSITION_Y | ABS_MT_TRACKING_ID | ABS_OTHER

datatype key_code = BTN_TOUCH | KEY_OTHER

datatype event = EV_ABS abs_code int | EV_KEY key_code int | EV_SYN | EV_OTHER

text \<open>A call \<open>self.touch_callback(kind, x, y)\<close>: the gesture handed to the application.\<close>

type_synonym gesture = "string \<times> int \<times> int"

text \<open>
  The fields of \<open>TouchHandler\<close> that \<open>_touch_loop\<close> reads and writes, followed by the
  loop's local variables \<open>x\<close>, \<open>y\<close>, \<open>touching\<close> and \<open>swipe_start\<close>.
  \<open>touch_callback\<close> records whether a callback is installed.
\<close>

record touch_handler =
  touch_callback :: bool
  current_touch :: "(int \<times> int) option"
  last_tap_time :: real
  tap_count :: int
  loc_x :: "int option"
  loc_y :: "int option"
  touching :: bool
  swipe_start :: "(int \<times> int \<times> real) option"

definition max_x :: int where "max_x = 800"
definition max_y :: int where "max_y = 480"

text \<open>
  The state \<open>__init__\<close> and the head of \<open>_touch_loop\<close> set up, once \<open>start\<close> has
  installed the callback.
\<close>

definition TouchHandler_init :: touch_handler where
  "TouchHandler_init =
     \<lparr>touch_callback = True, current_touch = None, last_tap_time = 0, tap_count = 0,
      loc_x = None, loc_y = None, touching = False, swipe_start = None\<rparr>"

text \<open>Lines 125 to 132: the gesture of a quick contact, a swipe or a tap.\<close>

definition swipe_or_tap :: "int \<Rightarrow> int \<Rightarrow> string" where
  "swipe_or_tap dx dy =
     (if of_int \<bar>dx\<bar> > of_int max_x * (0.1 :: real) \<or> of_int \<bar>dy\<bar> > of_int max_y * (0.1 :: real)
      then (if \<bar>dx\<bar> > \<bar>dy\<bar>
            then (if dx > 0 then ''swipe_right'' else ''swipe_left'')
            else (if dy > 0 then ''swipe_down'' else ''swipe_up''))
      else ''tap'')"

text \<open>
  Lines 116 to 123: the double-tap bookkeeping of a quick contact, at the clock reading
  \<open>current_time\<close>. It returns the handler and the gestures emitted.
\<close>

definition count_tap :: "real \<Rightarrow> int \<Rightarrow> int \<Rightarrow> touch_handler \<Rightarrow> touch_handler \<times> gesture list" where
  "count_tap current_time x y h =
     (let (h1, out) =
        (if current_time - last_tap_time h < 0.5
         then (let h' = h\<lparr>tap_count := tap_count h + 1\<rparr>
               in if tap_count h' \<ge> 2
                  then (h'\<lparr>tap_count := 0\<rparr>, [(''double_tap'', x, y)])
                  else (h', []))
         else (h\<lparr>tap_count := 1\<rparr>, []))
      in (h1\<lparr>last_tap_time := current_time\<rparr>, out))"

text \<open>
  Lines 105 to 135: \<open>ABS_MT_TRACKING_ID\<close> with a negative value. \<open>now1\<close> and \<open>now2\<close>
  are the two successive readings of the clock (for \<open>dt\<close> and for \<open>current_time\<close>).
\<close>

definition tracking_up :: "real \<Rightarrow> real \<Rightarrow> touch_handler \<Rightarrow> touch_handler \<times> gesture list" where
  "tracking_up now1 now2 h0 =
     (let h = h0\<lparr>touching := False\<rparr>
      in case (touch_callback h, loc_x h, loc_y h) of
           (True, Some x, Some y) \<Rightarrow>
             (let (h', out) =
                (case swipe_start h of
                   None \<Rightarrow> (h, [])
                 | Some (sx, sy, st) \<Rightarrow>
                     (let dx = x - sx; dy = y - sy; dt = now1 - st
                      in if dt < 0.2
                         then (let (h1, out1) = count_tap now2 x y h
                               in (h1, out1 @ [(swipe_or_tap dx dy, x, y)]))
                         else (h, [(''release'', x, y)])))
              in (h'\<lparr>swipe_start := None\<rparr>, out))
         | _ \<Rightarrow> (h, []))"

text \<open>Lines 100 to 103: \<open>ABS_MT_TRACKING_ID\<close> with a value \<open>\<ge> 0\<close>.\<close>

definition tracking_down :: "real \<Rightarrow> touch_handler \<Rightarrow> touch_handler \<times> gesture list" where
  "tracking_down now1 h0 =
     (let h = h0\<lparr>touching := True\<rparr>
      in case (loc_x h, loc_y h) of
           (Some x, Some y) \<Rightarrow> (h\<lparr>swipe_start := Some (x, y, now1)\<rparr>, [])
         | _ \<Rightarrow> (h, []))"

text \<open>Lines 139 to 144: \<open>BTN_TOUCH\<close> with value 1.\<close>

definition btn_down :: "real \<Rightarrow> touch_handler \<Rightarrow> touch_handler \<times> gesture list" where
  "btn_down now1 h0 =
     (let h = h0\<lparr>touching := True\<rparr>
      in case (loc_x h, loc_y h) of
           (Some x, Some y) \<Rightarrow>
             (h\<lparr>swipe_start := Some (x, y, now1)\<rparr>,
              if touch_callback h then [(''press'', x, y)] else [])
         | _ \<Rightarrow> (h, []))"

text \<open>Lines 145 to 148: \<open>BTN_TOUCH\<close> with any other value.\<close>

definition btn_up :: "touch_handler \<Rightarrow> touch_handler \<times> gesture list" where
  "btn_up h0 =
     (let h = h0\<lparr>touching := False\<rparr>
      in case (touch_callback h, loc_x h, loc_y h) of
           (True, Some x, Some y) \<Rightarrow> (h, [(''release'', x, y)])
         | _ \<Rightarrow> (h, []))"

text \<open>Lines 150 to 152: \<open>EV_SYN\<close>.\<close>

definition syn_report :: "touch_handler \<Rightarrow> touch_handler \<times> gesture list" where
  "syn_report h =
     (case (touching h, loc_x h, loc_y h) of
        (True, Some x, Some y) \<Rightarrow> (h\<lparr>current_touch := Some (x, y)\<rparr>, [])
      | _ \<Rightarrow> (h, []))"

text \<open>The body of the \<open>for\<close> loop of \<open>_touch_loop\<close> for one event, while \<open>running\<close>.\<close>

fun touch_event :: "real \<Rightarrow> real \<Rightarrow> touch_handler \<Rightarrow> event \<Rightarrow> touch_handler \<times> gesture list" where
  "touch_event now1 now2 h (EV_ABS ABS_MT_POSITION_X v) = (h\<lparr>loc_x := Some v\<rparr>, [])"
| "touch_event now1 now2 h (EV_ABS ABS_X v) = (h\<lparr>loc_x := Some v\<rparr>, [])"
| "touch_event now1 now2 h (EV_ABS ABS_MT_POSITION_Y v) = (h\<lparr>loc_y := Some v\<rparr>, [])"
| "touch_event now1 now2 h (EV_ABS ABS_Y v) = (h\<lparr>loc_y := Some v\<rparr>, [])"
| "touch_event now1 now2 h (EV_ABS ABS_MT_TRACKING_ID v) =
     (if v \<ge> 0 then tracking_down now1 h else tracking_up now1 now2 h)"
| "touch_event now1 now2 h (EV_ABS ABS_OTHER v) = (h, [])"
| "touch_event now1 now2 h (EV_KEY BTN_TOUCH v) =
     (if v = 1 then btn_down now1 h else btn_up h)"
| "touch_event now1 now2 h (EV_KEY KEY_OTHER v) = (h, [])"
| "touch_event now1 now2 h EV_SYN = syn_report h"
| "touch_event now1 now2 h EV_OTHER = (h, [])"

text \<open>
  \<open>_touch_loop\<close> over a finite run of events, each with the two clock readings taken
  while it is handled; the gestures are collected in the order of the calls.
\<close>

fun touch_loop :: "touch_handler \<Rightarrow> (event \<times> real \<times> real) list \<Rightarrow> touch_handler \<times> gesture list" where
  "touch_loop h [] = (h, [])"
| "touch_loop h ((ev, now1, now2) # evs) =
     (let (h1, out1) = touch_event now1 now2 h ev;
          (h2, out2) = touch_loop h1 evs
      in (h2, out1 @ out2))"

text \<open>A contact-up event: a negative tracking id, or \<open>BTN_TOUCH\<close> with a value other than 1.\<close>

fun contact_up :: "event \<Rightarrow> bool" where
  "contact_up (EV_ABS ABS_MT_TRACKING_ID v) = (v < 0)"
| "contact_up (EV_KEY BTN_TOUCH v) = (v \<noteq> 1)"
| "contact_up _ = False"

section \<open>touch\_uxplay\_wrapper.py: the gesture loop of main\<close>

text \<open>The local variables of the gesture loop (lines 85 to 89).\<close>

record uxplay_loop =
  ux_touching :: bool
  start_x :: "int option"
  start_y :: "int option"
  last_x :: "int option"
  last_y :: "int option"
  start_time :: "real option"
  ux_last_tap_time :: real
  ux_tap_count :: int

definition uxplay_loop_init :: uxplay_loop where
  "uxplay_loop_init =
     \<lparr>ux_touching = False, start_x = None, start_y = None, last_x = None, last_y = None,
      start_time = None, ux_last_tap_time = 0, ux_tap_count = 0\<rparr>"

text \<open>
  How one pass through the loop body ends: it goes on to the next event, leaves the loop
  with \<open>break\<close> (the \<open>finally\<close> block then shuts UXPlay down), or raises.
\<close>

datatype control = Next | Break | Raise py_error

text \<open>Lines 136 and 137: the tap counter expires one second after the last tap.\<close>

definition expire_taps :: "real \<Rightarrow> uxplay_loop \<Rightarrow> uxplay_loop" where
  "expire_taps current_time s =
     (if current_time - ux_last_tap_time s > 1.0 then s\<lparr>ux_tap_count := 0\<rparr> else s)"

text \<open>
  Lines 109 to 137: finger up while touching, at the clock reading \<open>current_time\<close>.
  The result holds the variables, the lines printed and how the pass ends.
\<close>

definition finger_up :: "real \<Rightarrow> uxplay_loop \<Rightarrow> uxplay_loop \<times> string list \<times> control" where
  "finger_up current_time s0 =
     (let s = s0\<lparr>ux_touching := False\<rparr>
      in case start_time s of
           None \<Rightarrow> (s, [], Raise TypeError)
         | Some st \<Rightarrow>
             (let duration = current_time - st
              in case (start_x s, last_x s) of
                   (Some sx, Some lx) \<Rightarrow>
                     (case (last_y s, start_y s) of
                        (Some ly, Some sy) \<Rightarrow>
                          (let dx = lx - sx; dy = ly - sy
                           in if \<bar>dx\<bar> < 30 \<and> \<bar>dy\<bar> < 30 \<and> duration < 0.3
                              then (if current_time - ux_last_tap_time s < 0.6
                                    then (let s1 = s\<lparr>ux_tap_count := ux_tap_count s + 1\<rparr>
                                          in if ux_tap_count s1 \<ge> 2
                                             then (s1, [''Double tap detected - Exiting UXPlay...''], Break)
                                             else (expire_taps current_time
                                                     (s1\<lparr>ux_last_tap_time := current_time\<rparr>), [], Next))
                                    else (expire_taps current_time
                                            (s\<lparr>ux_tap_count := 1, ux_last_tap_time := current_time\<rparr>),
                                          [''Single tap detected''], Next))
                              else if duration > 2.0 \<and> \<bar>dx\<bar> < 20 \<and> \<bar>dy\<bar> < 20
                              then (s, [''Long press detected - Exiting UXPlay...''], Break)
                              else (expire_taps current_time s, [], Next))
                      | _ \<Rightarrow> (s, [], Raise TypeError))
                 | _ \<Rightarrow> (s, [], Next)))"

text \<open>
  Lines 93 to 137: the loop body for one event. \<open>alive\<close> tells whether
  \<open>uxplay_proc.poll()\<close> returned \<open>None\<close>; \<open>now\<close> is the clock reading of the pass.
\<close>

fun uxplay_event :: "bool \<Rightarrow> real \<Rightarrow> uxplay_loop \<Rightarrow> event \<Rightarrow> uxplay_loop \<times> string list \<times> control" where
  "uxplay_event False now s ev = (s, [''UXPlay process ended.''], Break)"
| "uxplay_event True now s (EV_ABS ABS_MT_POSITION_X v) = (s\<lparr>last_x := Some v\<rparr>, [], Next)"
| "uxplay_event True now s (EV_ABS ABS_X v) = (s\<lparr>last_x := Some v\<rparr>, [], Next)"
| "uxplay_event True now s (EV_ABS ABS_MT_POSITION_Y v) = (s\<lparr>last_y := Some v\<rparr>, [], Next)"
| "uxplay_event True now s (EV_ABS ABS_Y v) = (s\<lparr>last_y := Some v\<rparr>, [], Next)"
| "uxplay_event True now s (EV_KEY BTN_TOUCH v) =
     (if v = 1
      then (s\<lparr>ux_touching := True, start_time := Some now,
               start_x := last_x s, start_y := last_y s\<rparr>, [], Next)
      else if v = 0 \<and> ux_touching s then finger_up now s
      else (s, [], Next))"
| "uxplay_event True now s ev = (s, [], Next)"

section \<open>touch\_ui.py: ASCIICanvas\<close>

text \<open>
  A cell of the buffer holds a one-character string, modelled by its Unicode code
  point; a Python string is the list of its code points. \<open>ustr\<close> turns an ASCII literal
  into such a string.
\<close>

type_synonym cell = nat
type_synonym ustring = "nat list"

definition ustr :: "string \<Rightarrow> ustring" where
  "ustr s = map of_char s"

text \<open>\<open>xs[i]\<close> as Python resolves it: a negative index counts from the end.\<close>

definition py_index :: "'a list \<Rightarrow> int \<Rightarrow> py_error + nat" where
  "py_index xs i =
     (if 0 \<le> i \<and> i < int (length xs) then Inr (nat i)
      else if i < 0 \<and> - int (length xs) \<le> i then Inr (nat (int (length xs) + i))
      else Inl IndexError)"

text \<open>\<open>range(a, b)\<close>.\<close>

definition py_range :: "int \<Rightarrow> int \<Rightarrow> int list" where
  "py_range a b = [a..b - 1]"

text \<open>\<open>str(n)\<close> for an integer: its decimal digits, with a minus sign when negative.\<close>

fun str_nat :: "nat \<Rightarrow> ustring" where
  "str_nat n = (if n < 10 then [48 + n] else str_nat (n div 10) @ [48 + n mod 10])"

declare str_nat.simps [simp del]

definition str_int :: "int \<Rightarrow> ustring" where
  "str_int i = (if i < 0 then 45 # str_nat (nat (- i)) else str_nat (nat i))"

text \<open>What reaches the terminal: the calls of \<open>sys.stdout.write\<close> (and \<open>print\<close>) and of \<open>flush\<close>.\<close>

datatype term_action = Write ustring | Flush

type_synonym terminal = "term_action list"

record canvas =
  width :: int
  height :: int
  buffer :: "cell list list"
  old_buffer :: "cell list list"
  dirty :: bool

definition ESC :: nat where "ESC = 27"

text \<open>
  \<open>__init__\<close> with both sizes given, followed by \<open>_setup_console\<close> on a UTF-8
  terminal: save cursor, hide cursor, clear screen, disable line wrap.
\<close>

definition ASCIICanvas :: "int \<Rightarrow> int \<Rightarrow> canvas" where
  "ASCIICanvas w h =
     \<lparr>width = w, height = h,
      buffer = map (\<lambda>_. map (\<lambda>_. 32) (py_range 0 w)) (py_range 0 h),
      old_buffer = map (\<lambda>_. map (\<lambda>_. 32) (py_range 0 w)) (py_range 0 h),
      dirty = True\<rparr>"

definition setup_console :: "terminal \<Rightarrow> terminal" where
  "setup_console t =
     t @ [Write (ESC # ustr ''[s''), Write (ESC # ustr ''[?25l''),
          Write (ESC # ustr ''[2J'' @ ESC # ustr ''[H''), Write (ESC # ustr ''[?7l'')]"

text \<open>
  An assignment \<open>self.buffer[row][col] = ch\<close>, and a run of them in program order. The
  run stops at the first \<open>IndexError\<close>.
\<close>

type_synonym cell_write = "int \<times> int \<times> cell"

definition set_cell :: "cell list list \<Rightarrow> cell_write \<Rightarrow> py_error + cell list list" where
  "set_cell b wr =
     (case wr of (row, col, ch) \<Rightarrow>
        (case py_index b row of
           Inl e \<Rightarrow> Inl e
         | Inr i \<Rightarrow>
             (case py_index (b ! i) col of
                Inl e \<Rightarrow> Inl e
              | Inr j \<Rightarrow> Inr (b[i := (b ! i)[j := ch]]))))"

fun apply_writes :: "cell_write list \<Rightarrow> cell list list \<Rightarrow> py_error + cell list list" where
  "apply_writes [] b = Inr b"
| "apply_writes (wr # wrs) b =
     (case set_cell b wr of Inl e \<Rightarrow> Inl e | Inr b' \<Rightarrow> apply_writes wrs b')"

text \<open>
  The assignments a method makes depend on its arguments and on \<open>width\<close> and \<open>height\<close>
  only, so each drawing method is the list of its assignments, applied to the buffer;
  then \<open>dirty\<close> is set. An exception leaves the method before \<open>dirty\<close> is set.
\<close>

definition paint :: "canvas \<Rightarrow> cell_write list \<Rightarrow> py_error + canvas" where
  "paint c wrs =
     (case apply_writes wrs (buffer c) of
        Inl e \<Rightarrow> Inl e
      | Inr b \<Rightarrow> Inr (c\<lparr>buffer := b, dirty := True\<rparr>))"

text \<open>\<open>clear\<close> (lines 205 to 210).\<close>

definition clear_writes :: "canvas \<Rightarrow> cell_write list" where
  "clear_writes c = [(y, x, 32). y \<leftarrow> py_range 0 (height c), x \<leftarrow> py_range 0 (width c)]"

definition clear :: "canvas \<Rightarrow> py_error + canvas" where
  "clear c = paint c (clear_writes c)"

text \<open>
  \<open>draw_text\<close> (lines 212 to 227). The loop over \<open>enumerate(text)\<close> carries the
  column \<open>px = x + i\<close> of the next character.
\<close>

fun text_writes :: "int \<Rightarrow> bool \<Rightarrow> int \<Rightarrow> int \<Rightarrow> ustring \<Rightarrow> cell_write list" where
  "text_writes w clip y px [] = []"
| "text_writes w clip y px (ch # chs) =
     (if px < 0 then text_writes w clip y (px + 1) chs
      else if px \<ge> w then (if clip then [] else text_writes w clip y (px + 1) chs)
      else (y, px, ch) # text_writes w clip y (px + 1) chs)"

definition draw_text_writes :: "canvas \<Rightarrow> int \<Rightarrow> int \<Rightarrow> ustring \<Rightarrow> bool \<Rightarrow> cell_write list" where
  "draw_text_writes c x y msg clip =
     (if y < 0 \<or> y \<ge> height c then [] else text_writes (width c) clip y x msg)"

definition draw_text :: "canvas \<Rightarrow> int \<Rightarrow> int \<Rightarrow> ustring \<Rightarrow> bool \<Rightarrow> py_error + canvas" where
  "draw_text c x y msg clip =
     (if y < 0 \<or> y \<ge> height c then Inr c
      else paint c (draw_text_writes c x y msg clip))"

text \<open>\<open>draw_box\<close> (lines 229 to 274): the border characters of a style.\<close>

definition box_chars :: "string \<Rightarrow> cell list" where
  "box_chars style =
     (if style = ''single'' then [9484, 9472, 9488, 9474, 9492, 9496]
      else if style = ''double'' then [9556, 9552, 9559, 9553, 9562, 9565]
      else if style = ''round'' then [9581, 9472, 9582, 9474, 9584, 9583]
      else [43, 45, 43, 124, 43, 43])"

definition fill_writes :: "canvas \<Rightarrow> int \<Rightarrow> int \<Rightarrow> int \<Rightarrow> int \<Rightarrow> cell_write list" where
  "fill_writes c x y w h =
     [(row, col, 9617).
        row \<leftarrow> py_range (max 0 y) (min (y + h) (height c)),
        col \<leftarrow> py_range (max 0 x) (min (x + w) (width c))]"

text \<open>
  A horizontal border line in row \<open>r\<close> with the corners \<open>lc\<close> and \<open>rc\<close>, when the row
  is on the canvas: the top line (lines 247 to 254) and the bottom line (265 to 272).
\<close>

definition hline_writes :: "canvas \<Rightarrow> cell list \<Rightarrow> int \<Rightarrow> int \<Rightarrow> int \<Rightarrow> cell \<Rightarrow> cell \<Rightarrow> cell_write list" where
  "hline_writes c chars x r w lc rc =
     (if 0 \<le> r \<and> r < height c
      then (if 0 \<le> x \<and> x < width c then [(r, x, lc)] else []) @
           concat (map (\<lambda>i. if 0 \<le> x + i \<and> x + i < width c then [(r, x + i, chars ! 1)] else [])
                     (py_range 1 (w - 1))) @
           (if 0 \<le> x + w - 1 \<and> x + w - 1 < width c then [(r, x + w - 1, rc)] else [])
      else [])"

text \<open>The two sides (lines 257 to 262).\<close>

definition side_writes :: "canvas \<Rightarrow> cell list \<Rightarrow> int \<Rightarrow> int \<Rightarrow> int \<Rightarrow> int \<Rightarrow> cell_write list" where
  "side_writes c chars x y w h =
     concat (map (\<lambda>i. if 0 \<le> y + i \<and> y + i < height c
                        then (if 0 \<le> x \<and> x < width c then [(y + i, x, chars ! 3)] else []) @
                             (if 0 \<le> x + w - 1 \<and> x + w - 1 < width c
                              then [(y + i, x + w - 1, chars ! 3)] else [])
                        else [])
               (py_range 1 (h - 1)))"

definition draw_box_writes ::
    "canvas \<Rightarrow> int \<Rightarrow> int \<Rightarrow> int \<Rightarrow> int \<Rightarrow> string \<Rightarrow> bool \<Rightarrow> cell_write list" where
  "draw_box_writes c x y w h style filled =
     (let chars = box_chars style
      in (if filled then fill_writes c x y w h else []) @
         hline_writes c chars x y w (chars ! 0) (chars ! 2) @
         side_writes c chars x y w h @
         hline_writes c chars x (y + h - 1) w (chars ! 4) (chars ! 5))"

definition draw_box ::
    "canvas \<Rightarrow> int \<Rightarrow> int \<Rightarrow> int \<Rightarrow> int \<Rightarrow> string \<Rightarrow> bool \<Rightarrow> py_error + canvas" where
  "draw_box c x y w h style filled = paint c (draw_box_writes c x y w h style filled)"

text \<open>
  \<open>render\<close> (lines 276 to 305). The frame is built row by row: cursor to the start of
  line \<open>y + 1\<close>, clear the line, the row's cells.
\<close>

definition row_prefix :: "int \<Rightarrow> ustring" where
  "row_prefix y = ESC # ustr ''['' @ str_int (y + 1) @ ustr '';1H'' @ ESC # ustr ''[K''"

fun frame_rows :: "cell list list \<Rightarrow> int list \<Rightarrow> py_error + ustring" where
  "frame_rows b [] = Inr []"
| "frame_rows b (y # ys) =
     (case py_index b y of
        Inl e \<Rightarrow> Inl e
      | Inr i \<Rightarrow>
          (case frame_rows b ys of
             Inl e \<Rightarrow> Inl e
           | Inr rest \<Rightarrow> Inr (row_prefix y @ b ! i @ rest)))"

definition frame :: "canvas \<Rightarrow> py_error + ustring" where
  "frame c =
     (case frame_rows (buffer c) (py_range 0 (height c)) of
        Inl e \<Rightarrow> Inl e
      | Inr rows \<Rightarrow> Inr (ESC # ustr ''[H'' @ rows))"

text \<open>Lines 302 and 303: \<open>self.old_buffer[y] = self.buffer[y][:]\<close> for each row.\<close>

fun copy_rows :: "cell list list \<Rightarrow> cell list list \<Rightarrow> int list \<Rightarrow> py_error + cell list list" where
  "copy_rows b ob [] = Inr ob"
| "copy_rows b ob (y # ys) =
     (case py_index b y of
        Inl e \<Rightarrow> Inl e
      | Inr i \<Rightarrow>
          (case py_index ob y of
             Inl e \<Rightarrow> Inl e
           | Inr j \<Rightarrow> copy_rows b (ob[j := b ! i]) ys))"

text \<open>
  \<open>render\<close> returns the terminal and the canvas, or the exception; what was written
  before an exception stays written.
\<close>

definition render :: "canvas \<Rightarrow> terminal \<Rightarrow> terminal \<times> (py_error + canvas)" where
  "render c t =
     (if \<not> dirty c then (t, Inr c)
      else case frame c of
             Inl e \<Rightarrow> (t, Inl e)
           | Inr f \<Rightarrow>
               (let t' = t @ [Write f, Flush]
                in case copy_rows (buffer c) (old_buffer c) (py_range 0 (height c)) of
                     Inl e \<Rightarrow> (t', Inl e)
                   | Inr ob \<Rightarrow> (t', Inr (c\<lparr>old_buffer := ob, dirty := False\<rparr>))))"

text \<open>
  The calls a client makes on a canvas, and a run of them from a canvas and a terminal;
  the run stops at the first exception.
\<close>

datatype canvas_op =
  Clear
  | DrawText int int ustring bool
  | DrawBox int int int int string bool
  | Render

fun canvas_call :: "canvas \<Rightarrow> terminal \<Rightarrow> canvas_op \<Rightarrow> terminal \<times> (py_error + canvas)" where
  "canvas_call c t Clear = (t, clear c)"
| "canvas_call c t (DrawText x y msg clip) = (t, draw_text c x y msg clip)"
| "canvas_call c t (DrawBox x y w h style filled) = (t, draw_box c x y w h style filled)"
| "canvas_call c t Render = render c t"

fun canvas_calls :: "canvas \<Rightarrow> terminal \<Rightarrow> canvas_op list \<Rightarrow> terminal \<times> (py_error + canvas)" where
  "canvas_calls c t [] = (t, Inr c)"
| "canvas_calls c t (call # calls) =
     (case canvas_call c t call of
        (t', Inl e) \<Rightarrow> (t', Inl e)
      | (t', Inr c') \<Rightarrow> canvas_calls c' t' calls)"

text \<open>
  The shape every canvas has: \<open>height\<close> rows of \<open>width\<close> cells in both buffers. A
  write is on the grid when its row and column are indices of the grid, counted from 0.
\<close>

definition grid :: "int \<Rightarrow> int \<Rightarrow> cell list list \<Rightarrow> bool" where
  "grid w h b = (length b = nat h \<and> list_all (\<lambda>row. length row = nat w) b)"

definition canvas_wf :: "canvas \<Rightarrow> bool" where
  "canvas_wf c = (grid (width c) (height c) (buffer c) \<and> length (old_buffer c) = nat (height c))"

definition on_grid :: "canvas \<Rightarrow> cell_write \<Rightarrow> bool" where
  "on_grid c wr = (case wr of (row, col, ch) \<Rightarrow> 0 \<le> row \<and> row < height c \<and> 0 \<le> col \<and> col < width c)"

section \<open>touch\_ui.py: widgets\<close>

text \<open>
  \<open>_get_terminal_size\<close> runs \<open>stty size\<close>. Its outcome is an input of the model:
  \<open>Some (rows, cols)\<close> when the output parses, \<open>None\<close> when anything raises. The
  result is \<open>(cols, rows)\<close>, with the fallback 80 by 24.
\<close>

type_synonym stty = "(int \<times> int) option"

definition get_terminal_size :: "stty \<Rightarrow> int \<times> int" where
  "get_terminal_size out = (case out of Some (rows, cols) \<Rightarrow> (cols, rows) | None \<Rightarrow> (80, 24))"

text \<open>
  A callback is a bound function or \<open>None\<close>; the model keeps its name and records each
  invocation with its argument.
\<close>

datatype invocation = Invoke string | InvokeInt string int | InvokeStr string string

text \<open>
  The class \<open>Widget\<close>: position and size in terminal cells, \<open>focused\<close> and \<open>visible\<close>.
  The subclasses extend the record.
\<close>

record widget =
  pos_x :: int
  pos_y :: int
  w_width :: int
  w_height :: int
  focused :: bool
  visible :: bool

text \<open>
  \<open>contains_point\<close> (lines 409 to 418): the touch point is scaled from the 800 by 480
  sensor to terminal cells with the terminal size of the moment.
\<close>

definition term_coord :: "int \<Rightarrow> int \<Rightarrow> int \<Rightarrow> int" where
  "term_coord v term_dim sensor_dim = py_int (of_int (v * term_dim) / of_int sensor_dim)"

definition contains_point :: "stty \<Rightarrow> 'a widget_scheme \<Rightarrow> int \<Rightarrow> int \<Rightarrow> bool" where
  "contains_point out w x y =
     (case get_terminal_size out of (term_cols, term_rows) \<Rightarrow>
        (let term_x = term_coord x term_cols 800; term_y = term_coord y term_rows 480
         in pos_x w \<le> term_x \<and> term_x < pos_x w + w_width w \<and>
            pos_y w \<le> term_y \<and> term_y < pos_y w + w_height w))"

text \<open>
  What a \<open>handle_touch\<close> method leaves behind: the widget, the callbacks it invoked, and
  its return value or the exception it raised.
\<close>

type_synonym 'w touched = "'w \<times> invocation list \<times> (py_error + bool)"

subsection \<open>Button, VideoButton, MainMenuButton\<close>

record button = widget +
  btn_text :: ustring
  callback :: "string option"
  pressed :: bool
  btn_style :: string

definition Button_init :: "int \<Rightarrow> int \<Rightarrow> ustring \<Rightarrow> string option \<Rightarrow> string \<Rightarrow> button" where
  "Button_init x y label cb st =
     \<lparr>pos_x = x, pos_y = y, w_width = int (length label) + 4, w_height = 3,
      focused = False, visible = True,
      btn_text = label, callback = cb, pressed = False, btn_style = st\<rparr>"

text \<open>\<open>Button.handle_touch\<close> (lines 449 to 459).\<close>

definition Button_handle_touch :: "string \<Rightarrow> int \<Rightarrow> int \<Rightarrow> button \<Rightarrow> button touched" where
  "Button_handle_touch event_type x y b =
     (if event_type = ''press'' then (b\<lparr>pressed := True\<rparr>, [], Inr True)
      else if event_type \<in> set [''release'', ''tap'']
      then (b\<lparr>pressed := False\<rparr>,
            (case (pressed b, callback b) of (True, Some f) \<Rightarrow> [Invoke f] | _ \<Rightarrow> []),
            Inr True)
      else (b, [], Inr False))"

record video_button = widget +
  filename :: ustring
  filepath :: string
  vb_callback :: "string option"
  vb_pressed :: bool

text \<open>\<open>VideoButton.handle_touch\<close> (lines 486 to 496).\<close>

definition VideoButton_handle_touch ::
    "string \<Rightarrow> int \<Rightarrow> int \<Rightarrow> video_button \<Rightarrow> video_button touched" where
  "VideoButton_handle_touch event_type x y b =
     (if event_type = ''press'' then (b\<lparr>vb_pressed := True\<rparr>, [], Inr True)
      else if event_type \<in> set [''release'', ''tap'']
      then (b\<lparr>vb_pressed := False\<rparr>,
            (case (vb_pressed b, vb_callback b) of
               (True, Some f) \<Rightarrow> [InvokeStr f (filepath b)] | _ \<Rightarrow> []),
            Inr True)
      else (b, [], Inr False))"

record main_menu_button = widget +
  mm_text :: ustring
  icon :: ustring
  mm_callback :: "string option"
  mm_pressed :: bool

text \<open>\<open>MainMenuButton.handle_touch\<close> (lines 588 to 599).\<close>

definition MainMenuButton_handle_touch ::
    "string \<Rightarrow> int \<Rightarrow> int \<Rightarrow> main_menu_button \<Rightarrow> main_menu_button touched" where
  "MainMenuButton_handle_touch event_type x y b =
     (if event_type = ''press'' then (b\<lparr>mm_pressed := True\<rparr>, [], Inr True)
      else if event_type \<in> set [''release'', ''tap'']
      then (b\<lparr>mm_pressed := False\<rparr>,
            (case (mm_pressed b, mm_callback b) of (True, Some f) \<Rightarrow> [Invoke f] | _ \<Rightarrow> []),
            Inr True)
      else (b, [], Inr False))"

subsection \<open>ScrollBar\<close>

record scrollbar = widget +
  total_items :: int
  visible_items :: int
  scroll_position :: int
  sb_callback :: "string option"
  dragging :: bool

text \<open>\<open>ScrollBar.__init__\<close> (lines 501 to 507).\<close>

definition ScrollBar_init ::
    "int \<Rightarrow> int \<Rightarrow> int \<Rightarrow> int \<Rightarrow> int \<Rightarrow> string option \<Rightarrow> scrollbar" where
  "ScrollBar_init x y h n_total n_visible cb =
     \<lparr>pos_x = x, pos_y = y, w_width = 3, w_height = h, focused = False, visible = True,
      total_items = max 1 n_total, visible_items = min n_visible (max 1 n_total),
      scroll_position = 0, sb_callback = cb, dragging = False\<rparr>"

text \<open>
  \<open>_update_position\<close> (lines 540 to 554). The quotient \<open>relative_y / self.height\<close>
  raises \<open>ZeroDivisionError\<close> when the height is 0, before anything is assigned.
\<close>

definition update_position :: "stty \<Rightarrow> int \<Rightarrow> scrollbar \<Rightarrow> py_error + scrollbar \<times> invocation list" where
  "update_position out touch_y sb =
     (case get_terminal_size out of (term_cols, term_rows) \<Rightarrow>
        (let term_y = term_coord touch_y term_rows 480;
             relative_y = term_y - pos_y sb
         in if w_height sb = 0 then Inl ZeroDivisionError
            else (let normalized = max 0 (min 1 (of_int relative_y / of_int (w_height sb) :: real));
                      max_scroll = total_items sb - visible_items sb;
                      p = py_int (normalized * of_int max_scroll)
                  in Inr (sb\<lparr>scroll_position := p\<rparr>,
                          (case sb_callback sb of Some f \<Rightarrow> [InvokeInt f p] | None \<Rightarrow> [])))))"

text \<open>\<open>ScrollBar.handle_touch\<close> (lines 530 to 538).\<close>

definition ScrollBar_handle_touch ::
    "stty \<Rightarrow> string \<Rightarrow> int \<Rightarrow> int \<Rightarrow> scrollbar \<Rightarrow> scrollbar touched" where
  "ScrollBar_handle_touch out event_type x y sb =
     (if event_type \<in> set [''press'', ''tap'']
      then (case update_position out y (sb\<lparr>dragging := True\<rparr>) of
              Inl e \<Rightarrow> (sb\<lparr>dragging := True\<rparr>, [], Inl e)
            | Inr (sb', calls) \<Rightarrow> (sb', calls, Inr True))
      else if event_type = ''release'' then (sb\<lparr>dragging := False\<rparr>, [], Inr True)
      else (sb, [], Inr False))"

text \<open>\<open>set_position\<close> (lines 556 to 559).\<close>

definition set_position :: "int \<Rightarrow> scrollbar \<Rightarrow> scrollbar" where
  "set_position position sb =
     (let max_scroll = total_items sb - visible_items sb
      in sb\<lparr>scroll_position := max 0 (min position max_scroll)\<rparr>)"

text \<open>
  The scroll operations on a scroll bar after its construction, and a run of them. An
  exception of \<open>handle_touch\<close> reaches the caller; the scroll bar stays as the method
  left it and later operations still apply to it.
\<close>

datatype scroll_op = SetPosition int | Touch stty string int int

fun scroll_step :: "scrollbar \<Rightarrow> scroll_op \<Rightarrow> scrollbar" where
  "scroll_step sb (SetPosition p) = set_position p sb"
| "scroll_step sb (Touch out event_type x y) = fst (ScrollBar_handle_touch out event_type x y sb)"

definition scroll_run :: "scrollbar \<Rightarrow> scroll_op list \<Rightarrow> scrollbar" where
  "scroll_run sb ops = foldl scroll_step sb ops"

subsection \<open>Slider\<close>

record slider = widget +
  min_val :: int
  max_val :: int
  slider_value :: int
  sl_callback :: "string option"
  sl_dragging :: bool

text \<open>
  \<open>Slider.__init__\<close> (lines 604 to 610); the defaults are 0, 100 and 50. The bounds
  and the value are integers, as in the slider the repository builds (line 767).
\<close>

definition Slider_init ::
    "int \<Rightarrow> int \<Rightarrow> int \<Rightarrow> int \<Rightarrow> int \<Rightarrow> int \<Rightarrow> string option \<Rightarrow> slider" where
  "Slider_init x y w lo hi v cb =
     \<lparr>pos_x = x, pos_y = y, w_width = w, w_height = 3, focused = False, visible = True,
      min_val = lo, max_val = hi, slider_value = v, sl_callback = cb, sl_dragging = False\<rparr>"

text \<open>
  \<open>_update_value\<close> (lines 640 to 651). \<open>touch_x * term_cols / 800\<close> and
  \<open>relative_x / (self.width - 3)\<close> are quotients of integers: each raises
  \<open>OverflowError\<close> when its result is too large for a float, and the second raises
  \<open>ZeroDivisionError\<close> when the width is 3. \<open>max(0, min(1, q))\<close> is the float \<open>q\<close> when
  \<open>0 < q < 1\<close> and otherwise the integer 0 or 1. Nothing is assigned and the callback
  is not called when any step raises.
\<close>

definition update_value :: "stty \<Rightarrow> int \<Rightarrow> slider \<Rightarrow> py_error + slider \<times> invocation list" where
  "update_value out touch_x s =
     (case get_terminal_size out of (term_cols, term_rows) \<Rightarrow>
        (case true_div (touch_x * term_cols) 800 of
           Inl e \<Rightarrow> Inl e
         | Inr scaled \<Rightarrow>
             (let term_x = py_int scaled;
                  relative_x = term_x - pos_x s - 1
              in case true_div relative_x (w_width s - 3) of
                   Inl e \<Rightarrow> Inl e
                 | Inr ratio \<Rightarrow>
                     (let normalized = py_max (PyInt 0) (py_min (PyInt 1) (PyFloat ratio))
                      in case scaled_value (min_val s) normalized (max_val s - min_val s) of
                           Inl e \<Rightarrow> Inl e
                         | Inr v \<Rightarrow>
                             Inr (s\<lparr>slider_value := v\<rparr>,
                                  (case sl_callback s of Some f \<Rightarrow> [InvokeInt f v] | None \<Rightarrow> []))))))"

text \<open>\<open>Slider.handle_touch\<close> (lines 630 to 638).\<close>

definition Slider_handle_touch :: "stty \<Rightarrow> string \<Rightarrow> int \<Rightarrow> int \<Rightarrow> slider \<Rightarrow> slider touched" where
  "Slider_handle_touch out event_type x y s =
     (if event_type \<in> set [''press'', ''tap'']
      then (case update_value out x (s\<lparr>sl_dragging := True\<rparr>) of
              Inl e \<Rightarrow> (s\<lparr>sl_dragging := True\<rparr>, [], Inl e)
            | Inr (s', calls) \<Rightarrow> (s', calls, Inr True))
      else if event_type = ''release'' then (s\<lparr>sl_dragging := False\<rparr>, [], Inr True)
      else (s, [], Inr False))"

text \<open>A run of \<open>handle_touch\<close> calls on a slider, each with the terminal size of its moment.\<close>

fun slider_run :: "slider \<Rightarrow> (stty \<times> string \<times> int \<times> int) list \<Rightarrow> slider" where
  "slider_run s [] = s"
| "slider_run s ((out, event_type, x, y) # rest) =
     slider_run (fst (Slider_handle_touch out event_type x y s)) rest"

subsection \<open>Screen\<close>

text \<open>
  The widgets a screen holds. A plain \<open>Widget\<close> inherits the base \<open>handle_touch\<close>, whose
  body is \<open>pass\<close>: it returns \<open>None\<close>, which the screen's test reads as false.
\<close>

datatype any_widget =
  Widget widget
  | Button button
  | VideoButton video_button
  | ScrollBar scrollbar
  | MainMenuButton main_menu_button
  | Slider slider

fun hit :: "stty \<Rightarrow> any_widget \<Rightarrow> int \<Rightarrow> int \<Rightarrow> bool" where
  "hit out (Widget w) x y = contains_point out w x y"
| "hit out (Button w) x y = contains_point out w x y"
| "hit out (VideoButton w) x y = contains_point out w x y"
| "hit out (ScrollBar w) x y = contains_point out w x y"
| "hit out (MainMenuButton w) x y = contains_point out w x y"
| "hit out (Slider w) x y = contains_point out w x y"

fun handle_touch :: "stty \<Rightarrow> string \<Rightarrow> int \<Rightarrow> int \<Rightarrow> any_widget \<Rightarrow> any_widget touched" where
  "handle_touch out ev x y (Widget w) = (Widget w, [], Inr False)"
| "handle_touch out ev x y (Button w) =
     (case Button_handle_touch ev x y w of (w', calls, r) \<Rightarrow> (Button w', calls, r))"
| "handle_touch out ev x y (VideoButton w) =
     (case VideoButton_handle_touch ev x y w of (w', calls, r) \<Rightarrow> (VideoButton w', calls, r))"
| "handle_touch out ev x y (ScrollBar w) =
     (case ScrollBar_handle_touch out ev x y w of (w', calls, r) \<Rightarrow> (ScrollBar w', calls, r))"
| "handle_touch out ev x y (MainMenuButton w) =
     (case MainMenuButton_handle_touch ev x y w of (w', calls, r) \<Rightarrow> (MainMenuButton w', calls, r))"
| "handle_touch out ev x y (Slider w) =
     (case Slider_handle_touch out ev x y w of (w', calls, r) \<Rightarrow> (Slider w', calls, r))"

text \<open>
  The method calls \<open>Screen.handle_touch\<close> makes on its widgets, by the widget's index
  in \<open>self.widgets\<close>.
\<close>

datatype touch_step = HitTest nat | Dispatch nat

record touch_outcome =
  widgets_after :: "any_widget list"
  invoked :: "invocation list"
  steps :: "touch_step list"
  returned :: "py_error + bool"

text \<open>
  The loop of \<open>Screen.handle_touch\<close> (lines 671 to 675) over \<open>reversed(self.widgets)\<close>:
  the argument list is the reversed list, so the widget at its head has the index
  \<open>length rest\<close> in \<open>self.widgets\<close>. A callback is only invoked by a \<open>handle_touch\<close> that
  returns true, which ends the loop. Every \<open>contains_point\<close> of one call sees the same
  outcome of \<open>stty size\<close>.
\<close>

fun touch_reversed :: "stty \<Rightarrow> string \<Rightarrow> int \<Rightarrow> int \<Rightarrow> any_widget list \<Rightarrow> touch_outcome" where
  "touch_reversed out ev x y [] =
     \<lparr>widgets_after = [], invoked = [], steps = [], returned = Inr False\<rparr>"
| "touch_reversed out ev x y (w # rest) =
     (if hit out w x y
      then (case handle_touch out ev x y w of
              (w', calls, Inr False) \<Rightarrow>
                (let r = touch_reversed out ev x y rest
                 in r\<lparr>widgets_after := w' # widgets_after r, invoked := calls @ invoked r,
                      steps := HitTest (length rest) # Dispatch (length rest) # steps r\<rparr>)
            | (w', calls, res) \<Rightarrow>
                \<lparr>widgets_after = w' # rest, invoked = calls,
                 steps = [HitTest (length rest), Dispatch (length rest)], returned = res\<rparr>)
      else (let r = touch_reversed out ev x y rest
            in r\<lparr>widgets_after := w # widgets_after r,
                 steps := HitTest (length rest) # steps r\<rparr>))"

definition Screen_handle_touch ::
    "stty \<Rightarrow> string \<Rightarrow> int \<Rightarrow> int \<Rightarrow> any_widget list \<Rightarrow> touch_outcome" where
  "Screen_handle_touch out ev x y widgets =
     (let r = touch_reversed out ev x y (rev widgets)
      in r\<lparr>widgets_after := rev (widgets_after r)\<rparr>)"

text \<open>The \<open>visible\<close> flag of a widget, and the widget with the flag replaced.\<close>

fun is_visible :: "any_widget \<Rightarrow> bool" where
  "is_visible (Widget w) = visible w"
| "is_visible (Button w) = visible w"
| "is_visible (VideoButton w) = visible w"
| "is_visible (ScrollBar w) = visible w"
| "is_visible (MainMenuButton w) = visible w"
| "is_visible (Slider w) = visible w"

fun set_visible :: "bool \<Rightarrow> any_widget \<Rightarrow> any_widget" where
  "set_visible v (Widget w) = Widget (w\<lparr>visible := v\<rparr>)"
| "set_visible v (Button w) = Button (w\<lparr>visible := v\<rparr>)"
| "set_visible v (VideoButton w) = VideoButton (w\<lparr>visible := v\<rparr>)"
| "set_visible v (ScrollBar w) = ScrollBar (w\<lparr>visible := v\<rparr>)"
| "set_visible v (MainMenuButton w) = MainMenuButton (w\<lparr>visible := v\<rparr>)"
| "set_visible v (Slider w) = Slider (w\<lparr>visible := v\<rparr>)"

section \<open>Collaborator processes\<close>












subsection \<open>The life of a hand-off screen\<close>









section \<open>Concrete inputs\<close>

text \<open>The gestures a quick contact can end with (lines 126 to 132).\<close>

definition quick_gestures :: "string list" where
  "quick_gestures = [''tap'', ''swipe_right'', ''swipe_left'', ''swipe_down'', ''swipe_up'']"

text \<open>
  A first quick contact at (100, 100), lifted after 0.125 s, and the start of a second
  contact: positions, \<open>BTN_TOUCH\<close> down, tracking id lifted, \<open>BTN_TOUCH\<close> down again.
\<close>

definition first_contact :: "(event \<times> real \<times> real) list" where
  "first_contact =
     [(EV_ABS ABS_MT_POSITION_X 100, 1000, 1000), (EV_ABS ABS_MT_POSITION_Y 100, 1000, 1000),
      (EV_KEY BTN_TOUCH 1, 1000, 1000), (EV_ABS ABS_MT_TRACKING_ID (- 1), 1000.125, 1000.125),
      (EV_KEY BTN_TOUCH 1, 1000.25, 1000.25)]"

text \<open>The handler after \<open>first_contact\<close>: one tap counted, the second contact started.\<close>

definition tapped_once :: touch_handler where
  "tapped_once =
     \<lparr>touch_callback = True, current_touch = None, last_tap_time = 1000.125, tap_count = 1,
      loc_x = Some 100, loc_y = Some 100, touching = True,
      swipe_start = Some (100, 100, 1000.25)\<rparr>"

text \<open>
  A contact at (100, 100) held for 0.25 s and one held for 3 s, from the initial state:
  positions, \<open>BTN_TOUCH\<close> down, tracking id lifted.
\<close>

definition quarter_second_contact :: "(event \<times> real \<times> real) list" where
  "quarter_second_contact =
     [(EV_ABS ABS_MT_POSITION_X 100, 1000, 1000), (EV_ABS ABS_MT_POSITION_Y 100, 1000, 1000),
      (EV_KEY BTN_TOUCH 1, 1000, 1000), (EV_ABS ABS_MT_TRACKING_ID (- 1), 1000.25, 1000.25)]"

definition three_second_contact :: "(event \<times> real \<times> real) list" where
  "three_second_contact =
     [(EV_ABS ABS_MT_POSITION_X 100, 1000, 1000), (EV_ABS ABS_MT_POSITION_Y 100, 1000, 1000),
      (EV_KEY BTN_TOUCH 1, 1000, 1000), (EV_ABS ABS_MT_TRACKING_ID (- 1), 1003, 1003)]"

text \<open>The handler while a contact that started at time 1000 at (100, 100) is held.\<close>

definition held :: touch_handler where
  "held =
     \<lparr>touch_callback = True, current_touch = None, last_tap_time = 0, tap_count = 0,
      loc_x = Some 100, loc_y = Some 100, touching = True,
      swipe_start = Some (100, 100, 1000)\<rparr>"

text \<open>
  The wrapper's variables while a finger that went down at time 1000 at (100, 100) rests
  there, one tap counted shortly before.
\<close>

definition ux_held :: uxplay_loop where
  "ux_held =
     \<lparr>ux_touching = True, start_x = Some 100, start_y = Some 100, last_x = Some 100,
      last_y = Some 100, start_time = Some 1000, ux_last_tap_time = 999.75, ux_tap_count = 1\<rparr>"

text \<open>
  A canvas of 3 columns and 2 rows after \<open>draw_text(1, 0, "he")\<close>, and one of 4
  columns and 3 rows.
\<close>

definition drawn :: canvas where
  "drawn =
     \<lparr>width = 3, height = 2, buffer = [[32, 104, 101], [32, 32, 32]],
      old_buffer = [[32, 32, 32], [32, 32, 32]], dirty = True\<rparr>"

definition small_canvas :: canvas where
  "small_canvas = ASCIICanvas 4 3"

text \<open>
  The scroll bar of a list of 25 items of which 10 are visible, and a slider from 0 to
  10 built with the default value 50.
\<close>

definition list_scrollbar :: scrollbar where
  "list_scrollbar = ScrollBar_init 70 5 14 25 10 (Some ''on_scroll'')"

definition short_slider :: slider where
  "short_slider = Slider_init 0 0 10 0 10 50 None"

definition brightness_slider :: slider where
  "brightness_slider = Slider_init 20 8 40 0 100 50 (Some ''update_brightness'')"

text \<open>
  A slider of width 10 whose bounds \<open>2 ^ 53 + 1\<close> and \<open>2 ^ 53 + 2\<close> are beyond the
  integers that every float represents, built with its value at the lower bound.
\<close>

definition large_slider :: slider where
  "large_slider = Slider_init 0 0 10 (2 ^ 53 + 1) (2 ^ 53 + 2) (2 ^ 53 + 1) None"

text \<open>
  Two overlapping buttons at the cell (38, 11) below a slider at the cell (20, 8) that
  does not overlap them. The touch point (400, 240) maps to the cell (40, 12) of the 80
  by 24 terminal, inside both buttons and outside the slider. In \<open>overlapping\<close> the
  upper button is not visible.
\<close>

definition lower_button :: button where
  "lower_button = Button_init 38 11 (ustr ''ok'') (Some ''accept'') ''single''"

definition upper_button :: button where
  "upper_button = Button_init 38 11 (ustr ''top'') (Some ''dismiss'') ''round''"

definition hidden_button :: button where
  "hidden_button = upper_button\<lparr>visible := False\<rparr>"

definition stacked :: "any_widget list" where
  "stacked = [Button lower_button, Button upper_button, Slider brightness_slider]"

definition overlapping :: "any_widget list" where
  "overlapping = [Button lower_button, Button hidden_button, Slider brightness_slider]"

text \<open>The widgets of \<open>stacked\<close> after a press at (400, 240): the upper button is pressed.\<close>

definition pressed_stack :: "any_widget list" where
  "pressed_stack =
     [Button lower_button, Button (upper_button\<lparr>pressed := True\<rparr>), Slider brightness_slider]"

section \<open>Properties of the gesture loops\<close>

lemmas touch_handler_defs =
  tracking_up_def tracking_down_def btn_up_def btn_down_def count_tap_def swipe_or_tap_def
  max_x_def max_y_def syn_report_def

lemma tapped_once_reached: "fst (touch_loop TouchHandler_init first_contact) = tapped_once"
  by (simp add: first_contact_def tapped_once_def TouchHandler_init_def touch_handler_defs)

lemma swipe_or_tap_quick: "swipe_or_tap dx dy \<in> set quick_gestures"
  by (simp add: swipe_or_tap_def quick_gestures_def)

lemma swipe_threshold:
  "(of_int \<bar>dx\<bar> > of_int max_x * (0.1 :: real)) = (\<bar>dx\<bar> > 80)"
  "(of_int \<bar>dy\<bar> > of_int max_y * (0.1 :: real)) = (\<bar>dy\<bar> > 48)"
proof -
  have "of_int max_x * (0.1 :: real) = of_int 80" "of_int max_y * (0.1 :: real) = of_int 48"
    by (simp_all add: max_x_def max_y_def)
  then show "(of_int \<bar>dx\<bar> > of_int max_x * (0.1 :: real)) = (\<bar>dx\<bar> > 80)"
    "(of_int \<bar>dy\<bar> > of_int max_y * (0.1 :: real)) = (\<bar>dy\<bar> > 48)"
    by (simp_all only: of_int_less_iff)
qed

lemma swipe_or_tap_near: "\<bar>dx\<bar> \<le> 80 \<Longrightarrow> \<bar>dy\<bar> \<le> 48 \<Longrightarrow> swipe_or_tap dx dy = ''tap''"
  unfolding swipe_or_tap_def swipe_threshold by simp

lemma count_tap_out:
  "snd (count_tap t x y h) =
     (if t - last_tap_time h < 0.5 \<and> tap_count h \<ge> 1 then [(''double_tap'', x, y)] else [])"
  by (simp add: count_tap_def Let_def)

lemma count_tap_count:
  "tap_count (fst (count_tap t x y h)) =
     (if t - last_tap_time h < 0.5 then (if tap_count h \<ge> 1 then 0 else tap_count h + 1) else 1)"
  by (simp add: count_tap_def Let_def)

lemma tracking_up_quick:
  assumes "touch_callback h" "loc_x h = Some x" "loc_y h = Some y"
    and "swipe_start h = Some (sx, sy, st)" "now1 - st < 0.2"
  shows "snd (tracking_up now1 now2 h) =
           snd (count_tap now2 x y (h\<lparr>touching := False\<rparr>)) @ [(swipe_or_tap (x - sx) (y - sy), x, y)]"
    and "tap_count (fst (tracking_up now1 now2 h)) =
           tap_count (fst (count_tap now2 x y (h\<lparr>touching := False\<rparr>)))"
  using assms by (simp_all add: tracking_up_def Let_def split: prod.splits)

lemma tracking_up_slow:
  assumes "touch_callback h" "loc_x h = Some x" "loc_y h = Some y"
    and "swipe_start h = Some (sx, sy, st)" "\<not> now1 - st < 0.2"
  shows "snd (tracking_up now1 now2 h) = [(''release'', x, y)]"
  using assms by (simp add: tracking_up_def Let_def split: prod.splits)

lemma tracking_up_kinds:
  "map fst (snd (tracking_up now1 now2 h)) = [] \<or>
   map fst (snd (tracking_up now1 now2 h)) = [''release''] \<or>
   (\<exists>g \<in> set quick_gestures.
      map fst (snd (tracking_up now1 now2 h)) = [g] \<or>
      map fst (snd (tracking_up now1 now2 h)) = [''double_tap'', g])"
proof (cases "touch_callback h")
  case False
  then show ?thesis by (simp add: tracking_up_def)
next
  case cb: True
  show ?thesis
  proof (cases "loc_x h")
    case None
    with cb show ?thesis by (simp add: tracking_up_def)
  next
    case (Some x)
    note x = this
    show ?thesis
    proof (cases "loc_y h")
      case None
      with cb x show ?thesis by (simp add: tracking_up_def)
    next
      case (Some y)
      note y = this
      show ?thesis
      proof (cases "swipe_start h")
        case None
        with cb x y show ?thesis by (simp add: tracking_up_def)
      next
        case (Some t)
        then obtain sx sy st where s: "swipe_start h = Some (sx, sy, st)"
          by (cases t) auto
        show ?thesis
        proof (cases "now1 - st < 0.2")
          case True
          from tracking_up_quick(1)[OF cb x y s True]
          show ?thesis
            using swipe_or_tap_quick[of "x - sx" "y - sy"] by (simp add: count_tap_out)
        next
          case False
          from tracking_up_slow[OF cb x y s False] show ?thesis by simp
        qed
      qed
    qed
  qed
qed

lemma btn_up_kinds: "map fst (snd (btn_up h)) = [] \<or> map fst (snd (btn_up h)) = [''release'']"
  by (simp add: btn_up_def Let_def split: bool.splits option.splits)

lemma no_position_up:
  "loc_x h = None \<or> loc_y h = None \<Longrightarrow> contact_up ev \<Longrightarrow> snd (touch_event now1 now2 h ev) = []"
  by (cases ev rule: contact_up.cases)
    (auto simp: tracking_up_def btn_up_def Let_def split: bool.splits option.splits)

text \<open>
  C1, as stated, fails: the contact-up that ends the second of two quick contacts emits
  two gestures, \<open>double_tap\<close> and then \<open>tap\<close>.
\<close>

theorem contact_up_two_gestures:
  "contact_up (EV_ABS ABS_MT_TRACKING_ID (- 1)) \<and>
   snd (touch_event 1000.375 1000.375 (fst (touch_loop TouchHandler_init first_contact))
          (EV_ABS ABS_MT_TRACKING_ID (- 1)))
     = [(''double_tap'', 100, 100), (''tap'', 100, 100)]"
  unfolding tapped_once_reached
  by (simp add: tapped_once_def touch_handler_defs)

text \<open>
  C1, amended. At a contact-up event the handler emits nothing when no position was
  recorded. Otherwise it emits nothing, \<open>release\<close> alone, or one of \<open>tap\<close> and the
  four swipes, which \<open>double_tap\<close> may precede; no other gesture (no long press) is
  emitted. When the tracking id is lifted with a recorded position and start, a contact
  of 0.2 s or more emits \<open>release\<close> alone, and a shorter one ends with the swipe or tap
  that its movement selects.
\<close>

theorem contact_up_gestures:
  assumes "contact_up ev"
  shows "(loc_x h = None \<or> loc_y h = None \<longrightarrow> snd (touch_event now1 now2 h ev) = []) \<and>
         (map fst (snd (touch_event now1 now2 h ev)) = [] \<or>
          map fst (snd (touch_event now1 now2 h ev)) = [''release''] \<or>
          (\<exists>g \<in> set quick_gestures.
             map fst (snd (touch_event now1 now2 h ev)) = [g] \<or>
             map fst (snd (touch_event now1 now2 h ev)) = [''double_tap'', g])) \<and>
         (touch_callback h \<and> loc_x h = Some x \<and> loc_y h = Some y \<and>
          swipe_start h = Some (sx, sy, st) \<and> ev = EV_ABS ABS_MT_TRACKING_ID v \<longrightarrow>
            (if now1 - st < 0.2
             then last (snd (touch_event now1 now2 h ev)) = (swipe_or_tap (x - sx) (y - sy), x, y)
             else snd (touch_event now1 now2 h ev) = [(''release'', x, y)]))"
proof (intro conjI)
  show "loc_x h = None \<or> loc_y h = None \<longrightarrow> snd (touch_event now1 now2 h ev) = []"
    using assms no_position_up by blast
next
  show "map fst (snd (touch_event now1 now2 h ev)) = [] \<or>
          map fst (snd (touch_event now1 now2 h ev)) = [''release''] \<or>
          (\<exists>g \<in> set quick_gestures.
             map fst (snd (touch_event now1 now2 h ev)) = [g] \<or>
             map fst (snd (touch_event now1 now2 h ev)) = [''double_tap'', g])"
    using assms
  proof (cases ev rule: contact_up.cases)
    case (1 v)
    with assms show ?thesis using tracking_up_kinds[of now1 now2 h] by simp
  next
    case (2 v)
    with assms show ?thesis using btn_up_kinds[of h] by auto
  qed simp_all
next
  show "touch_callback h \<and> loc_x h = Some x \<and> loc_y h = Some y \<and>
          swipe_start h = Some (sx, sy, st) \<and> ev = EV_ABS ABS_MT_TRACKING_ID v \<longrightarrow>
            (if now1 - st < 0.2
             then last (snd (touch_event now1 now2 h ev)) = (swipe_or_tap (x - sx) (y - sy), x, y)
             else snd (touch_event now1 now2 h ev) = [(''release'', x, y)])"
  proof
    assume a: "touch_callback h \<and> loc_x h = Some x \<and> loc_y h = Some y \<and>
          swipe_start h = Some (sx, sy, st) \<and> ev = EV_ABS ABS_MT_TRACKING_ID v"
    with assms have v: "v < 0" by simp
    show "if now1 - st < 0.2
          then last (snd (touch_event now1 now2 h ev)) = (swipe_or_tap (x - sx) (y - sy), x, y)
          else snd (touch_event now1 now2 h ev) = [(''release'', x, y)]"
    proof (cases "now1 - st < 0.2")
      case True
      with a v tracking_up_quick(1)[of h x y sx sy st now1 now2] show ?thesis by simp
    next
      case False
      with a v tracking_up_slow[of h x y sx sy st now1 now2] show ?thesis by simp
    qed
  qed
qed

theorem contact_up_gestures_witness:
  "contact_up (EV_ABS ABS_MT_TRACKING_ID (- 1)) \<and>
   loc_x TouchHandler_init = None \<and>
   snd (touch_event 1000 1000 TouchHandler_init (EV_ABS ABS_MT_TRACKING_ID (- 1))) = [] \<and>
   ''tap'' \<in> set quick_gestures \<and>
   map fst (snd (touch_event 1000.375 1000.375 tapped_once (EV_ABS ABS_MT_TRACKING_ID (- 1))))
     = [''double_tap'', ''tap''] \<and>
   swipe_start tapped_once = Some (100, 100, 1000.25) \<and>
   last (snd (touch_event 1000.375 1000.375 tapped_once (EV_ABS ABS_MT_TRACKING_ID (- 1))))
     = (''tap'', 100, 100)"
proof -
  have up: "contact_up (EV_ABS ABS_MT_TRACKING_ID (- 1))"
    by simp
  have none: "loc_x TouchHandler_init = None"
    by (simp add: TouchHandler_init_def)
  from contact_up_gestures[OF up, of TouchHandler_init "1000" "1000"] none
  have a: "snd (touch_event 1000 1000 TouchHandler_init (EV_ABS ABS_MT_TRACKING_ID (- 1))) = []"
    by blast
  have b: "map fst (snd (touch_event 1000.375 1000.375 tapped_once (EV_ABS ABS_MT_TRACKING_ID (- 1))))
     = [''double_tap'', ''tap''] \<and>
     last (snd (touch_event 1000.375 1000.375 tapped_once (EV_ABS ABS_MT_TRACKING_ID (- 1))))
     = (''tap'', 100, 100)"
    using contact_up_gestures[OF up, of tapped_once "1000.375" "1000.375" 100 100 100 100 "1000.25" "- 1"]
    by (simp add: tapped_once_def touch_handler_defs)
  show ?thesis
    using up none a b by (simp add: quick_gestures_def tapped_once_def)
qed

text \<open>
  C2, as stated, fails: a contact that does not move and lasts 0.25 s, with no earlier
  tap, emits \<open>release\<close> at the lifted tracking id, not \<open>tap\<close>.
\<close>

theorem quarter_second_contact_release:
  "\<bar>(100 :: int) - 100\<bar> < 30 \<and> (1000.25 :: real) - 1000 < 0.3 \<and>
   snd (touch_loop TouchHandler_init quarter_second_contact)
     = [(''press'', 100, 100), (''release'', 100, 100)]"
  by (simp add: quarter_second_contact_def TouchHandler_init_def touch_handler_defs)

text \<open>
  C2, amended. When the tracking id is lifted with a recorded position and start, and
  the contact moved less than 30 on each axis and lasted less than 0.2 s, the handler
  emits \<open>tap\<close>; when the previous quick contact ended less than 0.5 s before and the
  tap counter is at least 1, it emits \<open>double_tap\<close> before that \<open>tap\<close> and resets the
  counter to 0. Otherwise the counter becomes 1 outside the window and is incremented
  inside it.
\<close>

theorem quick_contact_tap:
  assumes "touch_callback h" "loc_x h = Some x" "loc_y h = Some y"
    and "swipe_start h = Some (sx, sy, st)"
    and "\<bar>x - sx\<bar> < 30" "\<bar>y - sy\<bar> < 30" "now1 - st < 0.2" "v < 0"
  shows "snd (touch_event now1 now2 h (EV_ABS ABS_MT_TRACKING_ID v)) =
           (if now2 - last_tap_time h < 0.5 \<and> tap_count h \<ge> 1
            then [(''double_tap'', x, y), (''tap'', x, y)] else [(''tap'', x, y)]) \<and>
         tap_count (fst (touch_event now1 now2 h (EV_ABS ABS_MT_TRACKING_ID v))) =
           (if now2 - last_tap_time h < 0.5
            then (if tap_count h \<ge> 1 then 0 else tap_count h + 1) else 1)"
proof -
  have tap: "swipe_or_tap (x - sx) (y - sy) = ''tap''"
    using assms(5,6) by (intro swipe_or_tap_near) simp_all
  from assms(8) have ev: "touch_event now1 now2 h (EV_ABS ABS_MT_TRACKING_ID v) = tracking_up now1 now2 h"
    by simp
  show ?thesis
    unfolding ev
    using tracking_up_quick[OF assms(1-4) assms(7), of now2]
    by (simp add: tap count_tap_out count_tap_count)
qed

theorem quick_contact_tap_witness:
  "touch_callback tapped_once \<and> loc_x tapped_once = Some 100 \<and> loc_y tapped_once = Some 100 \<and>
   swipe_start tapped_once = Some (100, 100, 1000.25) \<and>
   \<bar>(100 :: int) - 100\<bar> < 30 \<and> (1000.375 :: real) - 1000.25 < 0.2 \<and>
   snd (touch_event 1000.375 1000.375 tapped_once (EV_ABS ABS_MT_TRACKING_ID (- 1)))
     = [(''double_tap'', 100, 100), (''tap'', 100, 100)] \<and>
   tap_count (fst (touch_event 1000.375 1000.375 tapped_once (EV_ABS ABS_MT_TRACKING_ID (- 1)))) = 0"
proof -
  have h: "touch_callback tapped_once" "loc_x tapped_once = Some 100" "loc_y tapped_once = Some 100"
    "swipe_start tapped_once = Some (100, 100, 1000.25)"
    by (simp_all add: tapped_once_def)
  have n: "\<bar>(100 :: int) - 100\<bar> < 30" "(1000.375 :: real) - 1000.25 < 0.2" "(- 1 :: int) < 0"
    by simp_all
  from quick_contact_tap[OF h n(1) n(1) n(2) n(3), of "1000.375"]
  show ?thesis
    using h n by (simp add: tapped_once_def)
qed

text \<open>
  C3, as stated, fails for the handler of touch\_ui.py: a contact that does not move and
  lasts 3 s emits \<open>release\<close>; the handler has no long-press gesture.
\<close>

theorem three_second_contact_release:
  "(1003 :: real) - 1000 > 2.0 \<and> \<bar>(100 :: int) - 100\<bar> < 20 \<and>
   snd (touch_loop TouchHandler_init three_second_contact)
     = [(''press'', 100, 100), (''release'', 100, 100)]"
  by (simp add: three_second_contact_def TouchHandler_init_def touch_handler_defs)

text \<open>
  C3, amended. In the gesture loop of touch\_uxplay\_wrapper.py, a finger-up that ends a
  contact with recorded start and last positions, longer than 2.0 s and moved less
  than 20 on each axis, is reported as a long press and leaves the loop, whatever the
  tap counter and the time of the last tap are. The handler of touch\_ui.py emits
  \<open>release\<close> alone when the tracking id is lifted after such a contact.
\<close>

theorem long_press_detected:
  assumes "ux_touching s" "start_time s = Some t0"
    and "start_x s = Some px" "start_y s = Some py" "last_x s = Some qx" "last_y s = Some qy"
    and "now - t0 > 2.0" "\<bar>qx - px\<bar> < 20" "\<bar>qy - py\<bar> < 20"
    and "touch_callback h" "loc_x h = Some x" "loc_y h = Some y"
    and "swipe_start h = Some (sx, sy, st)" "now1 - st > 2.0"
  shows "uxplay_event True now s (EV_KEY BTN_TOUCH 0) =
           (s\<lparr>ux_touching := False\<rparr>, [''Long press detected - Exiting UXPlay...''], Break) \<and>
         snd (touch_event now1 now2 h (EV_ABS ABS_MT_TRACKING_ID (- 1))) = [(''release'', x, y)]"
proof
  show "uxplay_event True now s (EV_KEY BTN_TOUCH 0) =
           (s\<lparr>ux_touching := False\<rparr>, [''Long press detected - Exiting UXPlay...''], Break)"
    using assms(1-9) by (simp add: finger_up_def Let_def)
next
  from assms(14) have "\<not> now1 - st < 0.2"
    by simp
  from tracking_up_slow[OF assms(10-13) this]
  show "snd (touch_event now1 now2 h (EV_ABS ABS_MT_TRACKING_ID (- 1))) = [(''release'', x, y)]"
    by simp
qed

theorem long_press_detected_witness:
  "ux_touching ux_held \<and> start_time ux_held = Some 1000 \<and> ux_tap_count ux_held = 1 \<and>
   (1003 :: real) - 1000 > 2.0 \<and> \<bar>(100 :: int) - 100\<bar> < 20 \<and>
   uxplay_event True 1003 ux_held (EV_KEY BTN_TOUCH 0) =
     (ux_held\<lparr>ux_touching := False\<rparr>, [''Long press detected - Exiting UXPlay...''], Break) \<and>
   swipe_start held = Some (100, 100, 1000) \<and>
   snd (touch_event 1003 1003 held (EV_ABS ABS_MT_TRACKING_ID (- 1))) = [(''release'', 100, 100)]"
proof -
  have s: "ux_touching ux_held" "start_time ux_held = Some 1000"
    "start_x ux_held = Some 100" "start_y ux_held = Some 100"
    "last_x ux_held = Some 100" "last_y ux_held = Some 100"
    by (simp_all add: ux_held_def)
  have n: "(1003 :: real) - 1000 > 2.0" "\<bar>(100 :: int) - 100\<bar> < 20"
    by simp_all
  have h: "touch_callback held" "loc_x held = Some 100" "loc_y held = Some 100"
    "swipe_start held = Some (100, 100, 1000)"
    by (simp_all add: held_def)
  from long_press_detected[OF s n(1) n(2) n(2) h n(1), of "1003"]
  show ?thesis
    using s n h by (simp add: ux_held_def)
qed

section \<open>Properties of the canvas\<close>

lemma py_index_ok: "0 \<le> i \<Longrightarrow> i < int (length xs) \<Longrightarrow> py_index xs i = Inr (nat i)"
  by (simp add: py_index_def)

lemma length_py_range: "length (py_range 0 n) = nat n"
  by (simp add: py_range_def)

lemma set_py_range: "set (py_range a b) = {i. a \<le> i \<and> i < b}"
  by (auto simp: py_range_def)

lemma grid_update:
  assumes "grid w h b" "i < length b" "j < length (b ! i)"
  shows "grid w h (b[i := (b ! i)[j := ch]])"
proof -
  from assms(1) have len: "length b = nat h" and rows: "\<forall>row \<in> set b. length row = nat w"
    by (simp_all add: grid_def list_all_iff)
  from rows assms(2) have "length (b ! i) = nat w"
    by simp
  then have "\<forall>row \<in> set (b[i := (b ! i)[j := ch]]). length row = nat w"
    using rows set_update_subset_insert[of b i "(b ! i)[j := ch]"] by auto
  with len show ?thesis
    by (simp add: grid_def list_all_iff)
qed

lemma set_cell_on_grid:
  assumes "grid w h b" "0 \<le> row" "row < h" "0 \<le> col" "col < w"
  shows "\<exists>b'. set_cell b (row, col, ch) = Inr b' \<and> grid w h b'"
proof -
  from assms(1) have len: "length b = nat h" and rows: "\<forall>r \<in> set b. length r = nat w"
    by (simp_all add: grid_def list_all_iff)
  from len assms(2,3) have i: "nat row < length b" "py_index b row = Inr (nat row)"
    by (simp_all add: py_index_ok)
  with rows have lr: "length (b ! nat row) = nat w"
    by simp
  with assms(4,5) have j: "nat col < length (b ! nat row)" "py_index (b ! nat row) col = Inr (nat col)"
    by (simp_all add: py_index_ok)
  have "set_cell b (row, col, ch) = Inr (b[nat row := (b ! nat row)[nat col := ch]])"
    by (simp add: set_cell_def i(2) j(2))
  with grid_update[OF assms(1) i(1) j(1)] show ?thesis
    by simp
qed

lemma apply_writes_on_grid:
  assumes "grid w h b"
    and "list_all (\<lambda>wr. case wr of (row, col, ch) \<Rightarrow> 0 \<le> row \<and> row < h \<and> 0 \<le> col \<and> col < w) wrs"
  shows "\<exists>b'. apply_writes wrs b = Inr b' \<and> grid w h b'"
  using assms
proof (induction wrs arbitrary: b)
  case Nil
  then show ?case by simp
next
  case (Cons wr wrs)
  obtain row col ch where wr: "wr = (row, col, ch)"
    by (cases wr) auto
  with Cons.prems(2) have "0 \<le> row" "row < h" "0 \<le> col" "col < w"
    by simp_all
  from set_cell_on_grid[OF Cons.prems(1) this, of ch]
  obtain b1 where b1: "set_cell b wr = Inr b1" "grid w h b1"
    using wr by auto
  from Cons.prems(2) have "list_all (\<lambda>wr. case wr of (row, col, ch) \<Rightarrow> 0 \<le> row \<and> row < h \<and> 0 \<le> col \<and> col < w) wrs"
    by simp
  from Cons.IH[OF b1(2) this] show ?case
    by (simp add: b1(1))
qed

lemma paint_on_grid:
  assumes "canvas_wf c" "list_all (on_grid c) wrs"
  shows "\<exists>c'. paint c wrs = Inr c' \<and> canvas_wf c' \<and> width c' = width c \<and> height c' = height c"
proof -
  from assms(1) have g: "grid (width c) (height c) (buffer c)"
    by (simp add: canvas_wf_def)
  from assms(2)
  have "list_all (\<lambda>wr. case wr of (row, col, ch) \<Rightarrow>
          0 \<le> row \<and> row < height c \<and> 0 \<le> col \<and> col < width c) wrs"
    by (simp add: on_grid_def[abs_def])
  from apply_writes_on_grid[OF g this]
  obtain b' where "apply_writes wrs (buffer c) = Inr b'" "grid (width c) (height c) b'"
    by auto
  with assms(1) show ?thesis
    by (simp add: paint_def canvas_wf_def)
qed

lemma ASCIICanvas_wf: "canvas_wf (ASCIICanvas w h)"
  by (simp add: canvas_wf_def grid_def ASCIICanvas_def length_py_range list_all_iff)

lemma clear_writes_on_grid: "list_all (on_grid c) (clear_writes c)"
  by (auto simp: list_all_iff clear_writes_def on_grid_def set_py_range)

lemma text_writes_on_row:
  "list_all (\<lambda>wr. case wr of (row, col, ch) \<Rightarrow> row = y \<and> 0 \<le> col \<and> col < w) (text_writes w clip y px msg)"
  by (induction msg arbitrary: px) auto

lemma draw_text_writes_on_grid: "list_all (on_grid c) (draw_text_writes c x y msg clip)"
proof (cases "y < 0 \<or> y \<ge> height c")
  case True
  then show ?thesis by (simp add: draw_text_writes_def)
next
  case False
  with text_writes_on_row[of y "width c" clip x msg] show ?thesis
    by (auto simp: draw_text_writes_def list_all_iff on_grid_def)
qed

lemma fill_writes_on_grid: "list_all (on_grid c) (fill_writes c x y w h)"
  by (auto simp: list_all_iff fill_writes_def on_grid_def set_py_range)

lemma hline_writes_on_grid: "list_all (on_grid c) (hline_writes c chars x r w lc rc)"
  by (auto simp: list_all_iff hline_writes_def on_grid_def split: if_splits)

lemma side_writes_on_grid: "list_all (on_grid c) (side_writes c chars x y w h)"
  by (auto simp: list_all_iff side_writes_def on_grid_def split: if_splits)

lemma draw_box_writes_on_grid: "list_all (on_grid c) (draw_box_writes c x y w h style filled)"
  by (simp add: draw_box_writes_def Let_def fill_writes_on_grid hline_writes_on_grid
      side_writes_on_grid)

lemma frame_rows_in_range:
  assumes "\<forall>y \<in> set ys. 0 \<le> y \<and> y < int (length b)"
  shows "frame_rows b ys = Inr (concat (map (\<lambda>y. row_prefix y @ b ! nat y) ys))"
  using assms by (induction ys) (simp_all add: py_index_ok)

lemma copy_rows_from:
  assumes "length b = n" "length ob = n" "0 \<le> k"
  shows "copy_rows b ob [k..int n - 1] = Inr (take (nat k) ob @ drop (nat k) b)"
  using assms
proof (induction "nat (int n - k)" arbitrary: k ob)
  case 0
  then have "[k..int n - 1] = []" "nat k \<ge> n"
    by simp_all
  with 0 show ?case by simp
next
  case (Suc m)
  then have k: "k \<le> int n - 1" "nat k < n"
    by simp_all
  then have ys: "[k..int n - 1] = k # [k + 1..int n - 1]"
    by (simp add: upto_rec1)
  from k Suc.prems have i: "py_index b k = Inr (nat k)" "py_index ob k = Inr (nat k)"
    by (simp_all add: py_index_ok)
  have m: "m = nat (int n - (k + 1))"
    using Suc.hyps(2) by simp
  have len: "length (ob[nat k := b ! nat k]) = n"
    using Suc.prems by simp
  have k1: "0 \<le> k + 1" "nat (k + 1) = Suc (nat k)"
    using Suc.prems by simp_all
  from Suc.hyps(1)[OF m Suc.prems(1) len k1(1)]
  have "copy_rows b (ob[nat k := b ! nat k]) [k + 1..int n - 1] =
          Inr (take (Suc (nat k)) (ob[nat k := b ! nat k]) @ drop (Suc (nat k)) b)"
    by (simp add: k1(2))
  moreover have "take (Suc (nat k)) (ob[nat k := b ! nat k]) = take (nat k) ob @ [b ! nat k]"
    using k(2) Suc.prems(2) by (simp add: take_Suc_conv_app_nth)
  moreover have "drop (nat k) b = b ! nat k # drop (Suc (nat k)) b"
    using k(2) Suc.prems(1) by (simp add: Cons_nth_drop_Suc)
  ultimately show ?case
    by (simp add: ys i)
qed

lemma render_wf:
  assumes "canvas_wf c"
  shows "render c t =
           (if dirty c
            then (t @ [Write (ESC # ustr ''[H'' @
                         concat (map (\<lambda>y. row_prefix y @ buffer c ! nat y) (py_range 0 (height c)))),
                       Flush],
                  Inr (c\<lparr>old_buffer := buffer c, dirty := False\<rparr>))
            else (t, Inr c))"
proof (cases "dirty c")
  case False
  then show ?thesis by (simp add: render_def)
next
  case True
  from assms have len: "length (buffer c) = nat (height c)" "length (old_buffer c) = nat (height c)"
    by (simp_all add: canvas_wf_def grid_def)
  have "\<forall>y \<in> set (py_range 0 (height c)). 0 \<le> y \<and> y < int (length (buffer c))"
    using len(1) by (auto simp: set_py_range)
  from frame_rows_in_range[OF this]
  have f: "frame c = Inr (ESC # ustr ''[H'' @
             concat (map (\<lambda>y. row_prefix y @ buffer c ! nat y) (py_range 0 (height c))))"
    by (simp add: frame_def)
  have "py_range 0 (height c) = [0..int (nat (height c)) - 1]"
    by (cases "0 \<le> height c") (simp_all add: py_range_def)
  with copy_rows_from[OF len(1) len(2), of 0]
  have "copy_rows (buffer c) (old_buffer c) (py_range 0 (height c)) = Inr (buffer c)"
    by simp
  with True f show ?thesis
    by (simp add: render_def)
qed

lemma canvas_call_wf:
  assumes "canvas_wf c"
  shows "\<exists>t' c'. canvas_call c t call = (t', Inr c') \<and> canvas_wf c' \<and>
           width c' = width c \<and> height c' = height c"
proof (cases call)
  case Clear
  with paint_on_grid[OF assms clear_writes_on_grid] show ?thesis
    by (simp add: clear_def)
next
  case (DrawText x y msg clip)
  with paint_on_grid[OF assms draw_text_writes_on_grid[of c x y msg clip]] assms show ?thesis
    by (auto simp: draw_text_def)
next
  case (DrawBox x y w h style filled)
  with paint_on_grid[OF assms draw_box_writes_on_grid[of c x y w h style filled]] show ?thesis
    by (simp add: draw_box_def)
next
  case Render
  with assms show ?thesis
    by (simp add: render_wf[OF assms] canvas_wf_def grid_def)
qed

lemma canvas_calls_wf:
  assumes "canvas_wf c"
  shows "\<exists>t' c'. canvas_calls c t calls = (t', Inr c') \<and> canvas_wf c' \<and>
           width c' = width c \<and> height c' = height c"
  using assms
proof (induction calls arbitrary: c t)
  case Nil
  then show ?case by simp
next
  case (Cons call calls)
  from canvas_call_wf[OF Cons.prems, of t call]
  obtain t1 c1 where s: "canvas_call c t call = (t1, Inr c1)" "canvas_wf c1"
    "width c1 = width c" "height c1 = height c"
    by auto
  from Cons.IH[OF s(2), of t1] s show ?case
    by simp
qed

text \<open>
  C7. The assignments of \<open>draw_text\<close> and of \<open>draw_box\<close> all have a row in
  \<open>0..height-1\<close> and a column in \<open>0..width-1\<close>, whatever the coordinates, the sizes,
  the text and the style are; and no run of \<open>clear\<close>, \<open>draw_text\<close>, \<open>draw_box\<close> and
  \<open>render\<close> calls on a constructed canvas raises: it ends with a canvas of the same
  width and height.
\<close>

theorem draw_calls_clip:
  "list_all (on_grid c) (draw_text_writes c x y msg clip) \<and>
   list_all (on_grid c) (draw_box_writes c p q w h style filled) \<and>
   (\<exists>t c'. canvas_calls (ASCIICanvas cw ch) t0 calls = (t, Inr c') \<and>
            width c' = cw \<and> height c' = ch \<and> canvas_wf c')"
proof (intro conjI)
  show "list_all (on_grid c) (draw_text_writes c x y msg clip)"
    by (rule draw_text_writes_on_grid)
  show "list_all (on_grid c) (draw_box_writes c p q w h style filled)"
    by (rule draw_box_writes_on_grid)
  from canvas_calls_wf[OF ASCIICanvas_wf, of cw ch t0 calls]
  show "\<exists>t c'. canvas_calls (ASCIICanvas cw ch) t0 calls = (t, Inr c') \<and>
            width c' = cw \<and> height c' = ch \<and> canvas_wf c'"
    by (auto simp: ASCIICanvas_def)
qed

theorem draw_calls_clip_witness:
  "draw_box_writes small_canvas (- 1) 0 4 3 ''single'' True =
     [(0, 0, 9617), (0, 1, 9617), (0, 2, 9617), (1, 0, 9617), (1, 1, 9617), (1, 2, 9617),
      (2, 0, 9617), (2, 1, 9617), (2, 2, 9617), (0, 0, 9472), (0, 1, 9472), (0, 2, 9488),
      (1, 2, 9474), (2, 0, 9472), (2, 1, 9472), (2, 2, 9496)] \<and>
   list_all (on_grid small_canvas) (draw_box_writes small_canvas (- 1) 0 4 3 ''single'' True) \<and>
   draw_text_writes small_canvas 2 1 (ustr ''hello'') True = [(1, 2, 104), (1, 3, 101)] \<and>
   draw_text_writes small_canvas (- 3) 5 (ustr ''hello'') True = [] \<and>
   fst (canvas_calls (ASCIICanvas 4 3) []
          [DrawBox (- 1) 0 4 3 ''single'' True, DrawText 2 1 (ustr ''hello'') True]) = []"
proof -
  have a: "draw_box_writes small_canvas (- 1) 0 4 3 ''single'' True =
     [(0, 0, 9617), (0, 1, 9617), (0, 2, 9617), (1, 0, 9617), (1, 1, 9617), (1, 2, 9617),
      (2, 0, 9617), (2, 1, 9617), (2, 2, 9617), (0, 0, 9472), (0, 1, 9472), (0, 2, 9488),
      (1, 2, 9474), (2, 0, 9472), (2, 1, 9472), (2, 2, 9496)]"
    by (simp add: small_canvas_def ASCIICanvas_def draw_box_writes_def box_chars_def
        fill_writes_def hline_writes_def side_writes_def py_range_def Let_def upto.simps)
  have b: "draw_text_writes small_canvas 2 1 (ustr ''hello'') True = [(1, 2, 104), (1, 3, 101)]"
    "draw_text_writes small_canvas (- 3) 5 (ustr ''hello'') True = []"
    by (simp_all add: small_canvas_def ASCIICanvas_def draw_text_writes_def ustr_def)
  from draw_calls_clip[of small_canvas 2 1 "ustr ''hello''" True "- 1" 0 4 3 "''single''" True 4 3 "[]"
      "[DrawBox (- 1) 0 4 3 ''single'' True, DrawText 2 1 (ustr ''hello'') True]"]
  have c: "list_all (on_grid small_canvas) (draw_box_writes small_canvas (- 1) 0 4 3 ''single'' True)"
    and d: "\<exists>t c'. canvas_calls (ASCIICanvas 4 3) []
          [DrawBox (- 1) 0 4 3 ''single'' True, DrawText 2 1 (ustr ''hello'') True] = (t, Inr c')"
    by blast+
  have "fst (canvas_calls (ASCIICanvas 4 3) []
          [DrawBox (- 1) 0 4 3 ''single'' True, DrawText 2 1 (ustr ''hello'') True]) = []"
    using d by (auto simp: draw_box_def draw_text_def paint_def split: sum.splits if_splits)
  with a b c show ?thesis
    by simp
qed

text \<open>
  C5. On every canvas reached from the constructor by \<open>clear\<close>, \<open>draw_text\<close>,
  \<open>draw_box\<close> and \<open>render\<close> calls, \<open>render\<close> leaves the terminal and the canvas as
  they are when \<open>dirty\<close> is false; when \<open>dirty\<close> is true it appends one write, the
  whole frame (cursor home, then for each row the cursor position, clear-line and the
  row's cells), and one flush, copies the buffer into \<open>old_buffer\<close> and clears
  \<open>dirty\<close>.
\<close>

theorem render_once:
  assumes "canvas_calls (ASCIICanvas w h) t0 calls = (t, Inr c)"
  shows "render c t =
           (if dirty c
            then (t @ [Write (ESC # ustr ''[H'' @
                         concat (map (\<lambda>y. row_prefix y @ buffer c ! nat y) (py_range 0 (height c)))),
                       Flush],
                  Inr (c\<lparr>old_buffer := buffer c, dirty := False\<rparr>))
            else (t, Inr c))"
proof -
  from canvas_calls_wf[OF ASCIICanvas_wf, of w h t0 calls] assms have "canvas_wf c"
    by auto
  then show ?thesis
    by (rule render_wf)
qed

theorem render_once_witness:
  "canvas_calls (ASCIICanvas 3 2) [] [DrawText 1 0 (ustr ''he'') True] = ([], Inr drawn) \<and>
   dirty drawn \<and>
   render drawn [] =
     ([Write [27, 91, 72, 27, 91, 49, 59, 49, 72, 27, 91, 75, 32, 104, 101,
              27, 91, 50, 59, 49, 72, 27, 91, 75, 32, 32, 32], Flush],
      Inr (drawn\<lparr>old_buffer := buffer drawn, dirty := False\<rparr>)) \<and>
   canvas_calls (ASCIICanvas 3 2) [] [DrawText 1 0 (ustr ''he'') True, Render] =
     ([Write [27, 91, 72, 27, 91, 49, 59, 49, 72, 27, 91, 75, 32, 104, 101,
              27, 91, 50, 59, 49, 72, 27, 91, 75, 32, 32, 32], Flush],
      Inr (drawn\<lparr>old_buffer := buffer drawn, dirty := False\<rparr>)) \<and>
   render (drawn\<lparr>old_buffer := buffer drawn, dirty := False\<rparr>)
     [Write [27, 91, 72, 27, 91, 49, 59, 49, 72, 27, 91, 75, 32, 104, 101,
              27, 91, 50, 59, 49, 72, 27, 91, 75, 32, 32, 32], Flush] =
     ([Write [27, 91, 72, 27, 91, 49, 59, 49, 72, 27, 91, 75, 32, 104, 101,
              27, 91, 50, 59, 49, 72, 27, 91, 75, 32, 32, 32], Flush],
      Inr (drawn\<lparr>old_buffer := buffer drawn, dirty := False\<rparr>))"
proof -
  have reach: "canvas_calls (ASCIICanvas 3 2) [] [DrawText 1 0 (ustr ''he'') True] = ([], Inr drawn)"
    by (simp add: ASCIICanvas_def drawn_def draw_text_def draw_text_writes_def paint_def
        set_cell_def py_index_def py_range_def ustr_def upto.simps)
  have d: "dirty drawn"
    by (simp add: drawn_def)
  have fr: "ESC # ustr ''[H'' @
              concat (map (\<lambda>y. row_prefix y @ buffer drawn ! nat y) (py_range 0 (height drawn))) =
            [27, 91, 72, 27, 91, 49, 59, 49, 72, 27, 91, 75, 32, 104, 101,
              27, 91, 50, 59, 49, 72, 27, 91, 75, 32, 32, 32]"
    by (simp add: drawn_def py_range_def row_prefix_def ESC_def ustr_def str_int_def
        str_nat.simps upto.simps)
  from render_once[OF reach] d fr
  have r1: "render drawn [] =
     ([Write [27, 91, 72, 27, 91, 49, 59, 49, 72, 27, 91, 75, 32, 104, 101,
              27, 91, 50, 59, 49, 72, 27, 91, 75, 32, 32, 32], Flush],
      Inr (drawn\<lparr>old_buffer := buffer drawn, dirty := False\<rparr>))"
    by simp
  have reach2: "canvas_calls (ASCIICanvas 3 2) [] [DrawText 1 0 (ustr ''he'') True, Render] =
     ([Write [27, 91, 72, 27, 91, 49, 59, 49, 72, 27, 91, 75, 32, 104, 101,
              27, 91, 50, 59, 49, 72, 27, 91, 75, 32, 32, 32], Flush],
      Inr (drawn\<lparr>old_buffer := buffer drawn, dirty := False\<rparr>))"
    using reach r1 by (simp split: sum.splits prod.splits)
  from render_once[OF reach2]
  have r2: "render (drawn\<lparr>old_buffer := buffer drawn, dirty := False\<rparr>)
     [Write [27, 91, 72, 27, 91, 49, 59, 49, 72, 27, 91, 75, 32, 104, 101,
              27, 91, 50, 59, 49, 72, 27, 91, 75, 32, 32, 32], Flush] =
     ([Write [27, 91, 72, 27, 91, 49, 59, 49, 72, 27, 91, 75, 32, 104, 101,
              27, 91, 50, 59, 49, 72, 27, 91, 75, 32, 32, 32], Flush],
      Inr (drawn\<lparr>old_buffer := buffer drawn, dirty := False\<rparr>))"
    by simp
  from reach d r1 reach2 r2 show ?thesis
    by simp
qed

section \<open>Properties of the widgets\<close>

lemma py_int_between:
  assumes "of_int lo \<le> r" "r \<le> of_int hi"
  shows "lo \<le> py_int r \<and> py_int r \<le> hi"
proof (cases "0 \<le> r")
  case True
  with assms show ?thesis
    by (simp add: py_int_def le_floor_iff floor_le_iff)
next
  case False
  with assms show ?thesis
    by (simp add: py_int_def ceiling_le_iff le_ceiling_iff)
qed

lemma normalized_scaled:
  fixes q :: real
  assumes "0 \<le> m"
  shows "0 \<le> max 0 (min 1 q) * of_int m \<and> max 0 (min 1 q) * of_int m \<le> of_int m"
proof -
  have n: "0 \<le> max 0 (min 1 q)" "max 0 (min 1 q) \<le> 1"
    by simp_all
  from assms have m: "(0 :: real) \<le> of_int m"
    by simp
  from n(1) m have "0 \<le> max 0 (min 1 q) * of_int m"
    by (rule mult_nonneg_nonneg)
  moreover from n(2) m have "max 0 (min 1 q) * of_int m \<le> 1 * of_int m"
    by (rule mult_right_mono)
  ultimately show ?thesis
    by simp
qed

text \<open>The invariant of a scroll bar: no more visible than total items, position in range.\<close>

lemma update_position_range:
  assumes "visible_items sb \<le> total_items sb" "update_position out touch_y sb = Inr (sb', calls)"
  shows "0 \<le> scroll_position sb' \<and> scroll_position sb' \<le> total_items sb - visible_items sb \<and>
         total_items sb' = total_items sb \<and> visible_items sb' = visible_items sb"
proof -
  obtain term_cols term_rows where ts: "get_terminal_size out = (term_cols, term_rows)"
    by (cases "get_terminal_size out") auto
  define q :: real where
    "q = of_int (term_coord touch_y term_rows 480 - pos_y sb) / of_int (w_height sb)"
  from assms(2) ts have sb': "sb' = sb\<lparr>scroll_position :=
      py_int (max 0 (min 1 q) * of_int (total_items sb - visible_items sb))\<rparr>"
    by (auto simp: update_position_def Let_def q_def split: if_splits)
  from assms(1) have "0 \<le> total_items sb - visible_items sb"
    by simp
  from normalized_scaled[OF this, of q]
  have "of_int 0 \<le> max 0 (min 1 q) * of_int (total_items sb - visible_items sb)"
    "max 0 (min 1 q) * of_int (total_items sb - visible_items sb) \<le> of_int (total_items sb - visible_items sb)"
    by simp_all
  from py_int_between[OF this] show ?thesis
    by (simp add: sb')
qed

lemma scroll_step_inv:
  assumes "visible_items sb \<le> total_items sb"
    and "0 \<le> scroll_position sb" "scroll_position sb \<le> total_items sb - visible_items sb"
  shows "visible_items (scroll_step sb op) \<le> total_items (scroll_step sb op) \<and>
         0 \<le> scroll_position (scroll_step sb op) \<and>
         scroll_position (scroll_step sb op) \<le>
           total_items (scroll_step sb op) - visible_items (scroll_step sb op)"
proof (cases op)
  case (SetPosition p)
  with assms show ?thesis
    by (simp add: set_position_def Let_def)
next
  case (Touch out ev x y)
  show ?thesis
  proof (cases "ev \<in> set [''press'', ''tap'']")
    case False
    with assms Touch show ?thesis
      by (simp add: ScrollBar_handle_touch_def)
  next
    case True
    show ?thesis
    proof (cases "update_position out y (sb\<lparr>dragging := True\<rparr>)")
      case (Inl e)
      with True assms Touch show ?thesis
        by (simp add: ScrollBar_handle_touch_def)
    next
      case (Inr r)
      obtain sb' calls where r: "r = (sb', calls)"
        by (cases r) auto
      from assms(1) have "visible_items (sb\<lparr>dragging := True\<rparr>) \<le> total_items (sb\<lparr>dragging := True\<rparr>)"
        by simp
      from update_position_range[OF this Inr[unfolded r]] assms(1)
      have "visible_items sb' \<le> total_items sb' \<and> 0 \<le> scroll_position sb' \<and>
            scroll_position sb' \<le> total_items sb' - visible_items sb'"
        by simp
      moreover from True Inr r Touch have "scroll_step sb op = sb'"
        by (simp add: ScrollBar_handle_touch_def)
      ultimately show ?thesis
        by simp
    qed
  qed
qed

lemma scroll_run_inv:
  assumes "visible_items sb \<le> total_items sb"
    and "0 \<le> scroll_position sb" "scroll_position sb \<le> total_items sb - visible_items sb"
  shows "visible_items (scroll_run sb ops) \<le> total_items (scroll_run sb ops) \<and>
         0 \<le> scroll_position (scroll_run sb ops) \<and>
         scroll_position (scroll_run sb ops) \<le>
           total_items (scroll_run sb ops) - visible_items (scroll_run sb ops)"
  using assms
proof (induction ops arbitrary: sb)
  case Nil
  then show ?case by (simp add: scroll_run_def)
next
  case (Cons op ops)
  from scroll_step_inv[OF Cons.prems, of op] Cons.IH[of "scroll_step sb op"]
  show ?case
    by (simp add: scroll_run_def)
qed

text \<open>
  C4. After the construction of a scroll bar and after every run of \<open>set_position\<close>
  calls and touches on it, \<open>scroll_position\<close> lies between 0 and
  \<open>max(0, total_items - visible_items)\<close>.
\<close>

theorem scroll_position_clamped:
  "0 \<le> scroll_position (scroll_run (ScrollBar_init x y h n_total n_visible cb) ops) \<and>
   scroll_position (scroll_run (ScrollBar_init x y h n_total n_visible cb) ops) \<le>
     max 0 (total_items (scroll_run (ScrollBar_init x y h n_total n_visible cb) ops) -
            visible_items (scroll_run (ScrollBar_init x y h n_total n_visible cb) ops))"
proof -
  have "visible_items (ScrollBar_init x y h n_total n_visible cb) \<le>
          total_items (ScrollBar_init x y h n_total n_visible cb)"
    "0 \<le> scroll_position (ScrollBar_init x y h n_total n_visible cb)"
    "scroll_position (ScrollBar_init x y h n_total n_visible cb) \<le>
       total_items (ScrollBar_init x y h n_total n_visible cb) -
       visible_items (ScrollBar_init x y h n_total n_visible cb)"
    by (simp_all add: ScrollBar_init_def)
  from scroll_run_inv[OF this, of ops] show ?thesis
    by simp
qed

theorem scroll_position_clamped_witness:
  "scroll_position (scroll_run list_scrollbar [SetPosition 18]) = 15 \<and>
   total_items (scroll_run list_scrollbar [SetPosition 18]) = 25 \<and>
   visible_items (scroll_run list_scrollbar [SetPosition 18]) = 10 \<and>
   scroll_position (scroll_run list_scrollbar [SetPosition 18, Touch None ''press'' 700 200]) \<le> 15 \<and>
   0 \<le> scroll_position (scroll_run list_scrollbar [SetPosition 18, Touch None ''press'' 700 200])"
proof -
  have a: "scroll_run list_scrollbar [SetPosition 18, Touch None ''press'' 700 200] =
             fst (ScrollBar_handle_touch None ''press'' 700 200 (scroll_run list_scrollbar [SetPosition 18]))"
    by (simp add: scroll_run_def)
  have b: "scroll_position (scroll_run list_scrollbar [SetPosition 18]) = 15"
    "total_items (scroll_run list_scrollbar [SetPosition 18]) = 25"
    "visible_items (scroll_run list_scrollbar [SetPosition 18]) = 10"
    by (simp_all add: scroll_run_def list_scrollbar_def ScrollBar_init_def set_position_def)
  have c: "total_items (scroll_run list_scrollbar [SetPosition 18, Touch None ''press'' 700 200]) = 25"
    "visible_items (scroll_run list_scrollbar [SetPosition 18, Touch None ''press'' 700 200]) = 10"
    by (simp_all add: scroll_run_def list_scrollbar_def ScrollBar_init_def set_position_def
        ScrollBar_handle_touch_def update_position_def get_terminal_size_def Let_def)
  from scroll_position_clamped[of 70 5 14 25 10 "Some ''on_scroll''"
      "[SetPosition 18, Touch None ''press'' 700 200]"]
  have "0 \<le> scroll_position (scroll_run list_scrollbar [SetPosition 18, Touch None ''press'' 700 200]) \<and>
    scroll_position (scroll_run list_scrollbar [SetPosition 18, Touch None ''press'' 700 200]) \<le> 15"
    unfolding list_scrollbar_def[symmetric] c by simp
  with b show ?thesis
    by simp
qed

subsection \<open>Rounding\<close>

lemma ilog2_nonneg: "0 \<le> ilog2 n"
  by (induction n rule: ilog2.induct) (simp add: ilog2.simps)

lemma ilog2_bounds: "0 < n \<Longrightarrow> 2 ^ nat (ilog2 n) \<le> n \<and> n < 2 ^ nat (1 + ilog2 n)"
proof (induction n rule: ilog2.induct)
  case (1 n)
  show ?case
  proof (cases "n < 2")
    case True
    with 1(2) show ?thesis by (simp add: ilog2.simps [of n])
  next
    case False
    then have "0 < n div 2" by simp
    from 1(1) [OF False this] False ilog2_nonneg [of "n div 2"] show ?thesis
      by (simp add: ilog2.simps [of n] nat_add_distrib) linarith
  qed
qed

lemma round_half_even_ge: "of_int m \<le> x \<Longrightarrow> m \<le> round_half_even x"
  by (simp add: round_half_even_def Let_def le_floor_iff) linarith

lemma round_half_even_le: "x \<le> of_int m \<Longrightarrow> round_half_even x \<le> m"
  by (simp add: round_half_even_def Let_def) linarith

lemma round_half_even_of_int: "round_half_even (of_int m) = m"
  by (simp add: round_half_even_def)

lemma exponent_below: "r \<noteq> 0 \<Longrightarrow> \<bar>r\<bar> < 2 ^ 53 \<Longrightarrow> exponent r \<le> 52"
proof (cases "1 \<le> \<bar>r\<bar>")
  case True
  assume "\<bar>r\<bar> < 2 ^ 53"
  let ?n = "\<lfloor>\<bar>r\<bar>\<rfloor>"
  from True have pos: "0 < ?n" by simp
  from \<open>\<bar>r\<bar> < 2 ^ 53\<close> have "?n < 2 ^ 53" by (simp add: floor_less_iff)
  with ilog2_bounds [OF pos] have "(2::int) ^ nat (ilog2 ?n) < 2 ^ 53" by linarith
  then have "nat (ilog2 ?n) < 53"
    by (simp only: power_strict_increasing_iff one_less_numeral_iff semiring_norm)
  with True show ?thesis by (simp add: exponent_def)
next
  case False
  with ilog2_nonneg [of "\<lceil>1 / \<bar>r\<bar>\<rceil> - 1"] show ?thesis by (simp add: exponent_def)
qed

lemma ilog2_two53: "ilog2 9007199254740992 = 53"
  by (simp add: ilog2.simps)

lemma exponent_two53: "\<bar>r\<bar> = 2 ^ 53 \<Longrightarrow> exponent r = 53"
  by (simp add: exponent_def ilog2_two53)

lemma quantum_inverse: "k \<le> 0 \<Longrightarrow> (2::real) powi k = 1 / 2 ^ nat (- k)"
  by (cases "k = 0") (simp_all add: power_int_def field_simps)

text \<open>
  Rounding keeps a result between two integers that are floats: every integer up to
  \<open>2 ^ 53\<close> is one.
\<close>

lemma double_round_between:
  assumes "of_int a \<le> z" "z \<le> of_int b" "\<bar>a\<bar> \<le> 2 ^ 53" "\<bar>b\<bar> \<le> 2 ^ 53"
  shows "of_int a \<le> double_round z \<and> double_round z \<le> of_int b"
proof (cases "z = 0")
  case True
  with assms show ?thesis by (simp add: double_round_def)
next
  case nz: False
  show ?thesis
  proof (cases "\<bar>z\<bar> < 2 ^ 53")
    case True
    define k where "k = max (exponent z) (- 1022) - 52"
    define m where "m = nat (- k)"
    from exponent_below [OF nz True] have "k \<le> 0" by (simp add: k_def)
    then have q: "(2::real) powi k = 1 / 2 ^ m" by (simp add: quantum_inverse m_def)
    have dr: "double_round z = of_int (round_half_even (z * 2 ^ m)) / 2 ^ m"
      using nz by (simp add: double_round_def Let_def k_def [symmetric] q)
    have "of_int (a * 2 ^ m) \<le> z * 2 ^ m" using assms(1) by simp
    then have lo: "a * 2 ^ m \<le> round_half_even (z * 2 ^ m)" by (rule round_half_even_ge)
    have "z * 2 ^ m \<le> of_int (b * 2 ^ m)" using assms(2) by simp
    then have hi: "round_half_even (z * 2 ^ m) \<le> b * 2 ^ m" by (rule round_half_even_le)
    from lo have "of_int (a * 2 ^ m) \<le> (of_int (round_half_even (z * 2 ^ m)) :: real)"
      by (simp only: of_int_le_iff)
    then have 1: "of_int a \<le> double_round z" by (simp add: dr field_simps)
    from hi have "(of_int (round_half_even (z * 2 ^ m)) :: real) \<le> of_int (b * 2 ^ m)"
      by (simp only: of_int_le_iff)
    then have 2: "double_round z \<le> of_int b" by (simp add: dr field_simps)
    from 1 2 show ?thesis ..
  next
    case False
    have ra: "- (2 ^ 53) \<le> (of_int a :: real)" and rb: "(of_int b :: real) \<le> 2 ^ 53"
      using assms(3,4)
      by (simp_all add: abs_le_iff of_int_le_numeral_power_cancel_iff [symmetric]
          del: of_int_le_numeral_power_cancel_iff; linarith)+
    from False assms(1,2) ra rb have "z = 2 ^ 53 \<or> z = - (2 ^ 53)"
      by (simp add: abs_if split: if_splits; linarith)
    then show ?thesis
    proof
      assume z: "z = 2 ^ 53"
      have e: "exponent z = 53" by (rule exponent_two53) (simp add: z)
      have "z / 2 = of_int (2 ^ 52)" by (simp add: z)
      then have r: "round_half_even (z / 2) = 2 ^ 52" by (simp only: round_half_even_of_int)
      have "double_round z = of_int (round_half_even (z / 2)) * 2"
        using nz by (simp add: double_round_def e)
      then have "double_round z = of_int (2 ^ 52) * 2" by (simp only: r)
      then have "double_round z = z" by (simp add: z)
      with assms(1,2) show ?thesis by simp
    next
      assume z: "z = - (2 ^ 53)"
      have e: "exponent z = 53" by (rule exponent_two53) (simp add: z)
      have "z / 2 = of_int (- (2 ^ 52))" by (simp add: z)
      then have r: "round_half_even (z / 2) = - (2 ^ 52)" by (simp only: round_half_even_of_int)
      have "double_round z = of_int (round_half_even (z / 2)) * 2"
        using nz by (simp add: double_round_def e)
      then have "double_round z = of_int (- (2 ^ 52)) * 2" by (simp only: r)
      then have "double_round z = z" by (simp add: z)
      with assms(1,2) show ?thesis by simp
    qed
  qed
qed

lemma double_round_of_int: "\<bar>a\<bar> \<le> 2 ^ 53 \<Longrightarrow> double_round (of_int a) = of_int a"
  using double_round_between [of a "of_int a" a] by simp

lemma small_not_overflows: "\<bar>r\<bar> \<le> 2 ^ 55 \<Longrightarrow> \<not> overflows r"
  by (simp add: overflows_def)

subsection \<open>Slider\<close>

lemma normalized_cases:
  "py_max (PyInt 0) (py_min (PyInt 1) (PyFloat q)) =
     (if q < 1 then if 0 < q then PyFloat q else PyInt 0 else PyInt 1)"
  by (simp add: py_max_def py_min_def)

lemma scaled_value_range:
  assumes "0 < ext" "\<bar>lo\<bar> \<le> 2 ^ 53" "\<bar>lo + ext\<bar> \<le> 2 ^ 53" "ext \<le> 2 ^ 53"
  shows "\<exists>v. scaled_value lo (py_max (PyInt 0) (py_min (PyInt 1) (PyFloat q))) ext = Inr v \<and>
             lo \<le> v \<and> v \<le> lo + ext"
proof (cases "0 < q \<and> q < 1")
  case False
  with assms(1) show ?thesis
    by (auto simp: normalized_cases scaled_value_def)
next
  case True
  have e: "\<bar>ext\<bar> \<le> 2 ^ 53" "0 \<le> ext" using assms(1,4) by simp_all
  have re: "\<bar>of_int ext :: real\<bar> \<le> 2 ^ 53" "\<bar>of_int lo :: real\<bar> \<le> 2 ^ 53"
    "\<bar>of_int (lo + ext) :: real\<bar> \<le> 2 ^ 53"
    using e(1) assms(2,3)
    by (simp_all only: of_int_abs [symmetric] of_int_le_numeral_power_cancel_iff)
  have S: "double_round (of_int ext) = of_int ext" by (rule double_round_of_int [OF e(1)])
  have L: "double_round (of_int lo) = of_int lo" by (rule double_round_of_int [OF assms(2)])
  define product :: real where "product = q * of_int ext"
  have p0: "of_int 0 \<le> product" using True e(2) by (simp add: product_def)
  have "q * of_int ext \<le> 1 * (of_int ext :: real)"
    using True e(2) by (intro mult_right_mono) simp_all
  then have p1: "product \<le> of_int ext" by (simp add: product_def)
  from double_round_between [OF p0 p1 _ e(1)]
  have P: "0 \<le> double_round product" "double_round product \<le> of_int ext" by simp_all
  define total :: real where "total = of_int lo + double_round product"
  have t0: "of_int lo \<le> total" using P(1) by (simp add: total_def)
  have t1: "total \<le> of_int (lo + ext)" using P(2) by (simp add: total_def)
  from double_round_between [OF t0 t1 assms(2,3)]
  have "of_int lo \<le> double_round total" "double_round total \<le> of_int (lo + ext)" by simp_all
  from py_int_between [OF this]
  have v: "lo \<le> py_int (double_round total)" "py_int (double_round total) \<le> lo + ext" by simp_all
  have "\<bar>product\<bar> \<le> 2 ^ 53" using p0 p1 re(1) by simp
  then have np: "\<not> overflows product" by (intro small_not_overflows) simp
  have "\<bar>total\<bar> \<le> 2 ^ 53" using t0 t1 re(2,3) by (simp add: abs_le_iff)
  then have nt: "\<not> overflows total" by (intro small_not_overflows) simp
  have ne: "\<not> overflows (of_int ext)" "\<not> overflows (of_int lo)"
    using re(1,2) by (intro small_not_overflows; simp)+
  have "scaled_value lo (PyFloat q) ext = Inr (py_int (double_round total))"
    using np nt ne
    by (simp add: scaled_value_def S L Let_def product_def [symmetric] total_def [symmetric])
  with True v show ?thesis by (simp add: normalized_cases)
qed

lemma update_value_frame:
  "update_value out touch_x s = Inr (s', calls) \<Longrightarrow> \<exists>v. s' = s\<lparr>slider_value := v\<rparr>"
  by (auto simp: update_value_def Let_def split: prod.splits sum.splits)

lemma true_div_cases:
  "b \<noteq> 0 \<Longrightarrow> true_div a b = Inl OverflowError \<or> (\<exists>q. true_div a b = Inr q)"
  by (simp add: true_div_def)

lemma update_value_range:
  assumes "min_val s < max_val s" "w_width s > 3"
    and "\<bar>min_val s\<bar> \<le> 2 ^ 53" "\<bar>max_val s\<bar> \<le> 2 ^ 53" "max_val s - min_val s \<le> 2 ^ 53"
  shows "update_value out touch_x s = Inl OverflowError \<or>
         (\<exists>v. update_value out touch_x s =
                Inr (s\<lparr>slider_value := v\<rparr>,
                     (case sl_callback s of Some f \<Rightarrow> [InvokeInt f v] | None \<Rightarrow> [])) \<and>
              min_val s \<le> v \<and> v \<le> max_val s)"
proof -
  obtain term_cols term_rows where ts: "get_terminal_size out = (term_cols, term_rows)"
    by (cases "get_terminal_size out") auto
  from true_div_cases [of 800 "touch_x * term_cols"]
  consider "true_div (touch_x * term_cols) 800 = Inl OverflowError"
    | scaled where "true_div (touch_x * term_cols) 800 = Inr scaled"
    by auto
  then show ?thesis
  proof cases
    case 1
    then show ?thesis by (simp add: update_value_def ts)
  next
    case (2 scaled)
    from assms(2) have "w_width s - 3 \<noteq> 0" by simp
    from true_div_cases [OF this, of "py_int scaled - pos_x s - 1"]
    consider "true_div (py_int scaled - pos_x s - 1) (w_width s - 3) = Inl OverflowError"
      | ratio where "true_div (py_int scaled - pos_x s - 1) (w_width s - 3) = Inr ratio"
      by auto
    then show ?thesis
    proof cases
      case 1
      with 2 show ?thesis by (simp add: update_value_def ts)
    next
      case (2 ratio)
      from assms have "0 < max_val s - min_val s"
        "\<bar>min_val s + (max_val s - min_val s)\<bar> \<le> 2 ^ 53"
        by simp_all
      from scaled_value_range [OF this(1) assms(3) this(2) assms(5), of ratio]
      obtain v where v: "scaled_value (min_val s)
          (py_max (PyInt 0) (py_min (PyInt 1) (PyFloat ratio))) (max_val s - min_val s) = Inr v"
        "min_val s \<le> v" "v \<le> max_val s"
        by auto
      from \<open>true_div (touch_x * term_cols) 800 = Inr scaled\<close> 2 v(1)
      have "update_value out touch_x s =
              Inr (s\<lparr>slider_value := v\<rparr>,
                   (case sl_callback s of Some f \<Rightarrow> [InvokeInt f v] | None \<Rightarrow> []))"
        by (simp add: update_value_def ts)
      with v(2,3) show ?thesis by blast
    qed
  qed
qed

lemma update_value_returns:
  assumes "min_val s < max_val s" "w_width s > 3"
    and "\<bar>min_val s\<bar> \<le> 2 ^ 53" "\<bar>max_val s\<bar> \<le> 2 ^ 53" "max_val s - min_val s \<le> 2 ^ 53"
    and "\<bar>touch_x * fst (get_terminal_size out)\<bar> \<le> 800 * 2 ^ 53" "\<bar>pos_x s\<bar> \<le> 2 ^ 53"
  shows "update_value out touch_x s \<noteq> Inl OverflowError"
proof -
  obtain term_cols term_rows where ts: "get_terminal_size out = (term_cols, term_rows)"
    by (cases "get_terminal_size out") auto
  define q :: real where "q = of_int (touch_x * term_cols) / of_int 800"
  from assms(6) ts have "\<bar>of_int (touch_x * term_cols) :: real\<bar> \<le> 800 * 2 ^ 53"
    by (simp only: of_int_abs [symmetric] fst_conv)
       (metis of_int_le_iff of_int_mult of_int_numeral of_int_power)
  then have aq: "\<bar>q\<bar> \<le> 2 ^ 53" by (simp add: q_def abs_le_iff)
  then have "\<not> overflows q" by (intro small_not_overflows) simp
  then have d1: "true_div (touch_x * term_cols) 800 = Inr (double_round q)"
    by (simp add: true_div_def q_def)
  from aq have "of_int (- (2 ^ 53)) \<le> q" "q \<le> of_int (2 ^ 53)" by (simp_all add: abs_le_iff)
  from double_round_between [OF this]
  have "of_int (- (2 ^ 53)) \<le> double_round q" "double_round q \<le> of_int (2 ^ 53)" by simp_all
  from py_int_between [OF this]
  have t: "- (2 ^ 53) \<le> py_int (double_round q)" "py_int (double_round q) \<le> 2 ^ 53" by simp_all
  define relative_x where "relative_x = py_int (double_round q) - pos_x s - 1"
  from t assms(7) have "\<bar>relative_x\<bar> \<le> 2 ^ 55" by (simp add: relative_x_def abs_le_iff)
  then have ar: "\<bar>of_int relative_x :: real\<bar> \<le> 2 ^ 55"
    by (simp only: of_int_abs [symmetric] of_int_le_numeral_power_cancel_iff)
  from assms(2) have w: "(1::real) \<le> of_int (w_width s - 3)" "w_width s - 3 \<noteq> 0" by simp_all
  have "\<bar>of_int relative_x / of_int (w_width s - 3) :: real\<bar> =
        \<bar>of_int relative_x\<bar> / of_int (w_width s - 3)"
    using w(1) by (simp add: abs_divide del: of_int_diff)
  also have "\<dots> \<le> \<bar>of_int relative_x\<bar> / 1"
    using w(1) by (intro divide_left_mono) simp_all
  finally have "\<bar>of_int relative_x / of_int (w_width s - 3) :: real\<bar> \<le> 2 ^ 55"
    using ar by simp
  then have "\<not> overflows (of_int relative_x / of_int (w_width s - 3))"
    by (rule small_not_overflows)
  with w(2) have d2: "\<exists>ratio. true_div relative_x (w_width s - 3) = Inr ratio"
    by (simp add: true_div_def del: of_int_diff)
  then obtain ratio where d2: "true_div relative_x (w_width s - 3) = Inr ratio" ..
  from assms have "0 < max_val s - min_val s"
    "\<bar>min_val s + (max_val s - min_val s)\<bar> \<le> 2 ^ 53"
    by simp_all
  from scaled_value_range [OF this(1) assms(3) this(2) assms(5), of ratio]
  obtain v where v: "scaled_value (min_val s)
      (py_max (PyInt 0) (py_min (PyInt 1) (PyFloat ratio))) (max_val s - min_val s) = Inr v"
    by auto
  from d1 d2 v show ?thesis
    by (simp add: update_value_def ts relative_x_def)
qed

lemma slider_touch_sets_value:
  assumes "min_val s < max_val s" "w_width s > 3"
    and "\<bar>min_val s\<bar> \<le> 2 ^ 53" "\<bar>max_val s\<bar> \<le> 2 ^ 53" "max_val s - min_val s \<le> 2 ^ 53"
    and "ev = ''press'' \<or> ev = ''tap''"
  shows "snd (snd (Slider_handle_touch out ev x y s)) = Inr True \<and>
           min_val s \<le> slider_value (fst (Slider_handle_touch out ev x y s)) \<and>
           slider_value (fst (Slider_handle_touch out ev x y s)) \<le> max_val s \<or>
         Slider_handle_touch out ev x y s = (s\<lparr>sl_dragging := True\<rparr>, [], Inl OverflowError)"
proof -
  let ?s = "s\<lparr>sl_dragging := True\<rparr>"
  from assms(1-5) have
    "min_val ?s < max_val ?s" "w_width ?s > 3" "\<bar>min_val ?s\<bar> \<le> 2 ^ 53"
    "\<bar>max_val ?s\<bar> \<le> 2 ^ 53" "max_val ?s - min_val ?s \<le> 2 ^ 53"
    by simp_all
  from update_value_range [OF this, of out x] assms(6) show ?thesis
    by (auto simp: Slider_handle_touch_def)
qed

lemma slider_touch_returns:
  assumes "min_val s < max_val s" "w_width s > 3"
    and "\<bar>min_val s\<bar> \<le> 2 ^ 53" "\<bar>max_val s\<bar> \<le> 2 ^ 53" "max_val s - min_val s \<le> 2 ^ 53"
    and "\<bar>x * fst (get_terminal_size out)\<bar> \<le> 800 * 2 ^ 53" "\<bar>pos_x s\<bar> \<le> 2 ^ 53"
    and "ev = ''press'' \<or> ev = ''tap''"
  shows "snd (snd (Slider_handle_touch out ev x y s)) = Inr True"
proof -
  let ?s = "s\<lparr>sl_dragging := True\<rparr>"
  from assms(1-5,7) have
    "min_val ?s < max_val ?s" "w_width ?s > 3" "\<bar>min_val ?s\<bar> \<le> 2 ^ 53"
    "\<bar>max_val ?s\<bar> \<le> 2 ^ 53" "max_val ?s - min_val ?s \<le> 2 ^ 53"
    "\<bar>x * fst (get_terminal_size out)\<bar> \<le> 800 * 2 ^ 53" "\<bar>pos_x ?s\<bar> \<le> 2 ^ 53"
    using assms(6) by simp_all
  from update_value_returns [OF this] slider_touch_sets_value [OF assms(1-5,8), of out x y]
  show ?thesis
    using assms(8) by (auto simp: Slider_handle_touch_def split: sum.splits prod.splits)
qed

lemma slider_touch_keeps_value:
  assumes "ev \<noteq> ''press''" "ev \<noteq> ''tap''"
  shows "slider_value (fst (Slider_handle_touch out ev x y s)) = slider_value s"
  using assms by (simp add: Slider_handle_touch_def)

lemma slider_touch_frame:
  "min_val (fst (Slider_handle_touch out ev x y s)) = min_val s \<and>
   max_val (fst (Slider_handle_touch out ev x y s)) = max_val s \<and>
   w_width (fst (Slider_handle_touch out ev x y s)) = w_width s"
proof (cases "update_value out x (s\<lparr>sl_dragging := True\<rparr>)")
  case (Inl e)
  then show ?thesis by (simp add: Slider_handle_touch_def)
next
  case (Inr r)
  obtain s' calls where r: "r = (s', calls)" by (cases r) auto
  from update_value_frame [OF Inr [unfolded r]] obtain v
    where "s' = s\<lparr>sl_dragging := True, slider_value := v\<rparr>" by auto
  with Inr r show ?thesis by (simp add: Slider_handle_touch_def)
qed

lemma slider_touch_inv:
  assumes "min_val s < max_val s" "w_width s > 3"
    and "\<bar>min_val s\<bar> \<le> 2 ^ 53" "\<bar>max_val s\<bar> \<le> 2 ^ 53" "max_val s - min_val s \<le> 2 ^ 53"
    and "min_val s \<le> slider_value s" "slider_value s \<le> max_val s"
  shows "min_val s \<le> slider_value (fst (Slider_handle_touch out ev x y s)) \<and>
         slider_value (fst (Slider_handle_touch out ev x y s)) \<le> max_val s"
proof (cases "ev = ''press'' \<or> ev = ''tap''")
  case True
  from slider_touch_sets_value [OF assms(1-5) True, of out x y] assms(6,7) show ?thesis
    by auto
next
  case False
  then have "slider_value (fst (Slider_handle_touch out ev x y s)) = slider_value s"
    by (intro slider_touch_keeps_value) simp_all
  with assms(6,7) show ?thesis
    by simp
qed

lemma slider_run_inv:
  assumes "min_val s < max_val s" "w_width s > 3"
    and "\<bar>min_val s\<bar> \<le> 2 ^ 53" "\<bar>max_val s\<bar> \<le> 2 ^ 53" "max_val s - min_val s \<le> 2 ^ 53"
    and "min_val s \<le> slider_value s" "slider_value s \<le> max_val s"
  shows "min_val s \<le> slider_value (slider_run s touches) \<and>
         slider_value (slider_run s touches) \<le> max_val s"
  using assms
proof (induction touches arbitrary: s)
  case Nil
  then show ?case by simp
next
  case (Cons t touches)
  obtain out ev x y where t: "t = (out, ev, x, y)"
    by (cases t) auto
  let ?s = "fst (Slider_handle_touch out ev x y s)"
  from slider_touch_frame [of out ev x y s]
  have f: "min_val ?s = min_val s" "max_val ?s = max_val s" "w_width ?s = w_width s"
    by simp_all
  from slider_touch_inv [OF Cons.prems, of out ev x y]
  have "min_val ?s \<le> slider_value ?s" "slider_value ?s \<le> max_val ?s"
    by (simp_all add: f)
  from Cons.IH [OF _ _ _ _ _ this] Cons.prems(1-5) show ?case
    by (simp add: t f)
qed

text \<open>The roundings of the two examples, step by step.\<close>

lemmas round_eval_defs = double_round_def exponent_def round_half_even_def ilog2.simps Let_def

lemma true_div_2000_800: "true_div 2000 800 = Inr (5 / 2)"
  by (simp add: true_div_def overflows_def round_eval_defs)

lemma true_div_1_7: "true_div 1 7 = Inr (2573485501354569 / 18014398509481984)"
  by (simp add: true_div_def overflows_def round_eval_defs)

lemma double_round_1: "double_round 1 = 1"
  by (simp add: round_eval_defs)

lemma double_round_seventh:
  "double_round (2573485501354569 / 18014398509481984) = 2573485501354569 / 18014398509481984"
  by (simp add: round_eval_defs)

lemma double_round_lower_bound: "double_round 9007199254740993 = 9007199254740992"
  by (simp add: round_eval_defs)

lemma double_round_total:
  "double_round (162259276829213365965063511642697 / 18014398509481984) = 9007199254740992"
  by (simp add: round_eval_defs)

lemma scaled_value_large:
  "scaled_value 9007199254740993 (PyFloat (2573485501354569 / 18014398509481984)) 1 = Inr 9007199254740992"
  by (simp add: scaled_value_def overflows_def py_int_def double_round_1 double_round_seventh
      double_round_lower_bound double_round_total Let_def)

lemma true_div_32000_800: "true_div 32000 800 = Inr 40"
  by (simp add: true_div_def overflows_def round_eval_defs)

lemma true_div_19_37: "true_div 19 37 = Inr (4625318536218347 / 9007199254740992)"
  by (simp add: true_div_def overflows_def round_eval_defs)

lemma double_round_100: "double_round 100 = 100"
  by (simp add: round_eval_defs)

lemma double_round_0: "double_round 0 = 0"
  by (simp add: double_round_def)

lemma double_round_product:
  "double_round (115632963405458675 / 2251799813685248) = 7227060212841167 / 140737488355328"
  by (simp add: round_eval_defs)

lemma double_round_sum:
  "double_round (7227060212841167 / 140737488355328) = 7227060212841167 / 140737488355328"
  by (simp add: round_eval_defs)

lemma scaled_value_brightness:
  "scaled_value 0 (PyFloat (4625318536218347 / 9007199254740992)) 100 = Inr 51"
  by (simp add: scaled_value_def overflows_def py_int_def double_round_100 double_round_0
      double_round_product double_round_sum Let_def)

lemma true_div_overflow: "true_div (2 ^ 1030 * 80) 800 = Inl OverflowError"
  by (simp add: true_div_def overflows_def)

lemma large_slider_press:
  "Slider_handle_touch None ''press'' 25 0 large_slider =
     (large_slider\<lparr>sl_dragging := True, slider_value := 2 ^ 53\<rparr>, [], Inr True)"
  by (simp add: large_slider_def Slider_init_def Slider_handle_touch_def update_value_def
      get_terminal_size_def true_div_2000_800 true_div_1_7 py_int_def py_max_def py_min_def
      scaled_value_large)

lemma brightness_slider_press:
  "Slider_handle_touch None ''press'' 400 170 brightness_slider =
     (brightness_slider\<lparr>sl_dragging := True, slider_value := 51\<rparr>,
      [InvokeInt ''update_brightness'' 51], Inr True)"
  by (simp add: brightness_slider_def Slider_init_def Slider_handle_touch_def update_value_def
      get_terminal_size_def true_div_32000_800 true_div_19_37 py_int_def py_max_def py_min_def
      scaled_value_brightness)

lemma brightness_slider_overflow:
  "Slider_handle_touch None ''press'' (2 ^ 1030) 170 brightness_slider =
     (brightness_slider\<lparr>sl_dragging := True\<rparr>, [], Inl OverflowError)"
  using true_div_overflow
  by (simp add: brightness_slider_def Slider_init_def Slider_handle_touch_def update_value_def
      get_terminal_size_def)

text \<open>
  C10, as stated, fails twice. The constructor does not check \<open>value\<close>, and a \<open>release\<close>
  leaves it as it is: a slider from 0 to 10 built with the default value 50 still has
  the value 50 after \<open>handle_touch('release', 0, 0)\<close>. And the value is computed in
  floats: \<open>Slider(0, 0, 10, 2**53 + 1, 2**53 + 2, 2**53 + 1)\<close> on the 80 column
  terminal gets the value \<open>2**53\<close>, below \<open>min_val\<close>, from \<open>handle_touch('press', 25, 0)\<close>,
  because \<open>2**53 + 1\<close> is no float and \<open>2**53 + 1/7\<close> rounds to \<open>2**53\<close>.
\<close>

theorem slider_value_leaves_range:
  "min_val short_slider < max_val short_slider \<and> w_width short_slider > 3 \<and>
   max_val short_slider = 10 \<and>
   slider_value (fst (Slider_handle_touch None ''release'' 0 0 short_slider)) = 50 \<and>
   min_val large_slider < max_val large_slider \<and> w_width large_slider > 3 \<and>
   min_val large_slider = 2 ^ 53 + 1 \<and> slider_value large_slider = 2 ^ 53 + 1 \<and>
   Slider_handle_touch None ''press'' 25 0 large_slider =
     (large_slider\<lparr>sl_dragging := True, slider_value := 2 ^ 53\<rparr>, [], Inr True)"
  using large_slider_press
  by (simp add: short_slider_def large_slider_def Slider_init_def Slider_handle_touch_def)

text \<open>
  C10, amended. For a slider with integer bounds \<open>max_val > min_val\<close>, each of magnitude
  at most \<open>2 ^ 53\<close> and at most \<open>2 ^ 53\<close> apart, and \<open>width > 3\<close>, every touch coordinate
  and every terminal size: a \<open>handle_touch\<close> call with \<open>press\<close> or \<open>tap\<close> either returns
  true with the value in \<open>[min_val, max_val]\<close>, or raises \<open>OverflowError\<close> and leaves the
  value as it is; it returns true when \<open>\<bar>x * term_cols\<bar> \<le> 800 * 2 ^ 53\<close> and the
  slider's \<open>x\<close> is at most \<open>2 ^ 53\<close> in magnitude; a call with any other event leaves
  the value as it is; so a value in the range is in the range after every run of
  \<open>handle_touch\<close> calls.
\<close>

theorem slider_value_in_bounds:
  assumes "min_val s < max_val s" "w_width s > 3"
    and "\<bar>min_val s\<bar> \<le> 2 ^ 53" "\<bar>max_val s\<bar> \<le> 2 ^ 53" "max_val s - min_val s \<le> 2 ^ 53"
  shows "(ev = ''press'' \<or> ev = ''tap'' \<longrightarrow>
           snd (snd (Slider_handle_touch out ev x y s)) = Inr True \<and>
             min_val s \<le> slider_value (fst (Slider_handle_touch out ev x y s)) \<and>
             slider_value (fst (Slider_handle_touch out ev x y s)) \<le> max_val s \<or>
           Slider_handle_touch out ev x y s = (s\<lparr>sl_dragging := True\<rparr>, [], Inl OverflowError)) \<and>
         ((ev = ''press'' \<or> ev = ''tap'') \<and>
          \<bar>x * fst (get_terminal_size out)\<bar> \<le> 800 * 2 ^ 53 \<and> \<bar>pos_x s\<bar> \<le> 2 ^ 53 \<longrightarrow>
           snd (snd (Slider_handle_touch out ev x y s)) = Inr True) \<and>
         (ev \<noteq> ''press'' \<and> ev \<noteq> ''tap'' \<longrightarrow>
           slider_value (fst (Slider_handle_touch out ev x y s)) = slider_value s) \<and>
         (min_val s \<le> slider_value s \<and> slider_value s \<le> max_val s \<longrightarrow>
           min_val s \<le> slider_value (slider_run s touches) \<and>
           slider_value (slider_run s touches) \<le> max_val s)"
proof (intro conjI impI)
  assume "ev = ''press'' \<or> ev = ''tap''"
  from slider_touch_sets_value [OF assms this, of out x y]
  show "snd (snd (Slider_handle_touch out ev x y s)) = Inr True \<and>
          min_val s \<le> slider_value (fst (Slider_handle_touch out ev x y s)) \<and>
          slider_value (fst (Slider_handle_touch out ev x y s)) \<le> max_val s \<or>
        Slider_handle_touch out ev x y s = (s\<lparr>sl_dragging := True\<rparr>, [], Inl OverflowError)" .
next
  assume "(ev = ''press'' \<or> ev = ''tap'') \<and>
    \<bar>x * fst (get_terminal_size out)\<bar> \<le> 800 * 2 ^ 53 \<and> \<bar>pos_x s\<bar> \<le> 2 ^ 53"
  then have "\<bar>x * fst (get_terminal_size out)\<bar> \<le> 800 * 2 ^ 53" "\<bar>pos_x s\<bar> \<le> 2 ^ 53"
    "ev = ''press'' \<or> ev = ''tap''"
    by simp_all
  from slider_touch_returns [OF assms this]
  show "snd (snd (Slider_handle_touch out ev x y s)) = Inr True" .
next
  assume "ev \<noteq> ''press'' \<and> ev \<noteq> ''tap''"
  then show "slider_value (fst (Slider_handle_touch out ev x y s)) = slider_value s"
    by (intro slider_touch_keeps_value) simp_all
next
  assume "min_val s \<le> slider_value s \<and> slider_value s \<le> max_val s"
  then have "min_val s \<le> slider_value s" "slider_value s \<le> max_val s" by simp_all
  from slider_run_inv [OF assms this, of touches]
  show "min_val s \<le> slider_value (slider_run s touches)"
    "slider_value (slider_run s touches) \<le> max_val s"
    by simp_all
qed

theorem slider_value_in_bounds_witness:
  "min_val brightness_slider < max_val brightness_slider \<and> w_width brightness_slider > 3 \<and>
   \<bar>min_val brightness_slider\<bar> \<le> 2 ^ 53 \<and> \<bar>max_val brightness_slider\<bar> \<le> 2 ^ 53 \<and>
   max_val brightness_slider - min_val brightness_slider \<le> 2 ^ 53 \<and>
   snd (snd (Slider_handle_touch None ''press'' 400 170 brightness_slider)) = Inr True \<and>
   slider_value (fst (Slider_handle_touch None ''press'' 400 170 brightness_slider)) = 51 \<and>
   Slider_handle_touch None ''press'' (2 ^ 1030) 170 brightness_slider =
     (brightness_slider\<lparr>sl_dragging := True\<rparr>, [], Inl OverflowError) \<and>
   slider_value (fst (Slider_handle_touch None ''release'' 400 170 brightness_slider)) = 50 \<and>
   min_val brightness_slider \<le> slider_value (slider_run brightness_slider
      [(None, ''press'', 400, 170), (Some (30, 100), ''release'', 400, 170)]) \<and>
   slider_value (slider_run brightness_slider
      [(None, ''press'', 400, 170), (Some (30, 100), ''release'', 400, 170)]) \<le> 100"
proof -
  have g: "min_val brightness_slider < max_val brightness_slider" "w_width brightness_slider > 3"
    "\<bar>min_val brightness_slider\<bar> \<le> 2 ^ 53" "\<bar>max_val brightness_slider\<bar> \<le> 2 ^ 53"
    "max_val brightness_slider - min_val brightness_slider \<le> 2 ^ 53"
    by (simp_all add: brightness_slider_def Slider_init_def)
  have h: "\<bar>400 * fst (get_terminal_size None)\<bar> \<le> 800 * 2 ^ 53"
    "\<bar>pos_x brightness_slider\<bar> \<le> 2 ^ 53"
    "min_val brightness_slider \<le> slider_value brightness_slider"
    "slider_value brightness_slider \<le> max_val brightness_slider"
    "max_val brightness_slider = 100" "slider_value brightness_slider = 50"
    by (simp_all add: brightness_slider_def Slider_init_def get_terminal_size_def)
  from slider_value_in_bounds [OF g, of "''press''" None 400 170] h(1,2)
  have a: "snd (snd (Slider_handle_touch None ''press'' 400 170 brightness_slider)) = Inr True"
    by simp
  have b: "slider_value (fst (Slider_handle_touch None ''press'' 400 170 brightness_slider)) = 51"
    by (simp add: brightness_slider_press)
  from slider_value_in_bounds [OF g, of "''release''" None 400 170] h(6)
  have c: "slider_value (fst (Slider_handle_touch None ''release'' 400 170 brightness_slider)) = 50"
    by simp
  from slider_value_in_bounds [OF g, of _ _ _ _
      "[(None, ''press'', 400, 170), (Some (30, 100), ''release'', 400, 170)]"] h(3,4,5)
  have d: "min_val brightness_slider \<le> slider_value (slider_run brightness_slider
      [(None, ''press'', 400, 170), (Some (30, 100), ''release'', 400, 170)])"
    "slider_value (slider_run brightness_slider
      [(None, ''press'', 400, 170), (Some (30, 100), ''release'', 400, 170)]) \<le> 100"
    by simp_all
  from g a b c d brightness_slider_overflow show ?thesis
    by simp
qed

lemma length_touch_reversed: "length (widgets_after (touch_reversed out ev x y rs)) = length rs"
  by (induction rs) (auto simp: Let_def split: prod.splits sum.splits bool.splits)

lemma touch_reversed_first_hit:
  assumes "\<forall>p \<in> set pre. \<not> hit out p x y" "hit out w x y"
  shows "(\<exists>more. steps (touch_reversed out ev x y (pre @ w # rest)) =
            map HitTest (rev [Suc (length rest)..<Suc (length rest) + length pre]) @
            HitTest (length rest) # Dispatch (length rest) # more) \<and>
         widgets_after (touch_reversed out ev x y (pre @ w # rest)) ! length pre =
           fst (handle_touch out ev x y w)"
  using assms(1)
proof (induction pre)
  case Nil
  obtain w' calls res where h: "handle_touch out ev x y w = (w', calls, res)"
    by (cases "handle_touch out ev x y w") auto
  show ?case
  proof (cases "res = Inr False")
    case True
    with h assms(2) show ?thesis
      by (simp add: Let_def)
  next
    case False
    with h assms(2) show ?thesis
      by (cases res) (auto split: bool.splits)
  qed
next
  case (Cons p pre)
  then have nohit: "\<not> hit out p x y" and rest: "\<forall>p \<in> set pre. \<not> hit out p x y"
    by simp_all
  from Cons.IH[OF rest] obtain more where
    s: "steps (touch_reversed out ev x y (pre @ w # rest)) =
            map HitTest (rev [Suc (length rest)..<Suc (length rest) + length pre]) @
            HitTest (length rest) # Dispatch (length rest) # more"
    and a: "widgets_after (touch_reversed out ev x y (pre @ w # rest)) ! length pre =
           fst (handle_touch out ev x y w)"
    by auto
  have "steps (touch_reversed out ev x y ((p # pre) @ w # rest)) =
          HitTest (Suc (length rest) + length pre) #
          steps (touch_reversed out ev x y (pre @ w # rest))"
    using nohit by (simp add: Let_def)
  with s have "steps (touch_reversed out ev x y ((p # pre) @ w # rest)) =
            map HitTest (rev [Suc (length rest)..<Suc (length rest) + length (p # pre)]) @
            HitTest (length rest) # Dispatch (length rest) # more"
    by simp
  moreover have "widgets_after (touch_reversed out ev x y ((p # pre) @ w # rest)) ! length (p # pre) =
           fst (handle_touch out ev x y w)"
    using nohit a by (simp add: Let_def)
  ultimately show ?case
    by blast
qed

lemma topmost_dispatch:
  assumes "i < length ws" "hit out (ws ! i) x y"
    and "\<forall>j. i < j \<and> j < length ws \<longrightarrow> \<not> hit out (ws ! j) x y"
  shows "(\<exists>more. steps (Screen_handle_touch out ev x y ws) =
            map HitTest (rev [i..<length ws]) @ Dispatch i # more) \<and>
         widgets_after (Screen_handle_touch out ev x y ws) ! i =
           fst (handle_touch out ev x y (ws ! i))"
proof -
  let ?pre = "rev (drop (Suc i) ws)" and ?rest = "rev (take i ws)"
  from assms(1) have ws: "ws = take i ws @ ws ! i # drop (Suc i) ws"
    by (simp add: id_take_nth_drop)
  then have "rev ws = rev (drop (Suc i) ws) @ rev (ws ! i # []) @ rev (take i ws)"
    by (metis rev_append append_assoc rev.simps(2) append_Cons append_Nil)
  then have r: "rev ws = ?pre @ ws ! i # ?rest"
    by simp
  have "\<forall>p \<in> set ?pre. \<not> hit out p x y"
  proof
    fix p
    assume "p \<in> set ?pre"
    then have "p \<in> set (drop (Suc i) ws)"
      by simp
    then obtain k where "k < length (drop (Suc i) ws)" "p = drop (Suc i) ws ! k"
      by (auto simp: in_set_conv_nth)
    then have "p = ws ! (Suc i + k)" "Suc i + k < length ws"
      by auto
    with assms(3) show "\<not> hit out p x y"
      by simp
  qed
  from touch_reversed_first_hit[OF this assms(2), of ev ?rest] assms(1)
  obtain more where
    s: "steps (touch_reversed out ev x y (rev ws)) =
          map HitTest (rev [Suc i..<Suc i + (length ws - Suc i)]) @ HitTest i # Dispatch i # more"
    and a: "widgets_after (touch_reversed out ev x y (rev ws)) ! (length ws - Suc i) =
          fst (handle_touch out ev x y (ws ! i))"
    unfolding r[symmetric] by auto
  from assms(1) have e: "Suc i + (length ws - Suc i) = length ws"
    by simp
  from assms(1) have "[i..<length ws] = i # [Suc i..<length ws]"
    by (rule upt_conv_Cons)
  with s[unfolded e] have "steps (Screen_handle_touch out ev x y ws) =
            map HitTest (rev [i..<length ws]) @ Dispatch i # more"
    by (simp add: Screen_handle_touch_def Let_def)
  moreover have "widgets_after (Screen_handle_touch out ev x y ws) ! i =
           fst (handle_touch out ev x y (ws ! i))"
    using a assms(1) length_touch_reversed[of out ev x y "rev ws"]
    by (simp add: Screen_handle_touch_def Let_def rev_nth)
  ultimately show ?thesis
    by blast
qed

lemma hit_set_visible: "hit out (set_visible v w) x y = hit out w x y"
  by (cases w) (simp_all add: contains_point_def)

lemma handle_touch_set_visible:
  "handle_touch out ev x y (set_visible v w) =
     (case handle_touch out ev x y w of (w', calls, res) \<Rightarrow> (set_visible v w', calls, res))"
proof (cases w)
  case (Widget b)
  then show ?thesis by simp
next
  case (Button b)
  then show ?thesis by (simp add: Button_handle_touch_def)
next
  case (VideoButton b)
  then show ?thesis
    by (auto simp: VideoButton_handle_touch_def split: bool.splits option.splits)
next
  case (ScrollBar b)
  then show ?thesis
    by (auto simp: ScrollBar_handle_touch_def update_position_def Let_def
        split: prod.splits sum.splits)
next
  case (MainMenuButton b)
  then show ?thesis by (simp add: MainMenuButton_handle_touch_def)
next
  case (Slider b)
  then show ?thesis
    by (auto simp: Slider_handle_touch_def update_value_def Let_def
        split: prod.splits sum.splits)
qed

lemma touch_reversed_set_visible:
  "touch_reversed out ev x y (map (set_visible v) rs) =
     (touch_reversed out ev x y rs)
       \<lparr>widgets_after := map (set_visible v) (widgets_after (touch_reversed out ev x y rs))\<rparr>"
proof (induction rs)
  case Nil
  then show ?case by simp
next
  case (Cons w rs)
  obtain w' calls res where h: "handle_touch out ev x y w = (w', calls, res)"
    by (cases "handle_touch out ev x y w") auto
  then have hv: "handle_touch out ev x y (set_visible v w) = (set_visible v w', calls, res)"
    by (simp add: handle_touch_set_visible)
  show ?case
  proof (cases "hit out w x y")
    case False
    with Cons.IH show ?thesis
      by (simp add: hit_set_visible Let_def)
  next
    case True
    show ?thesis
    proof (cases "res = Inr False")
      case True
      with \<open>hit out w x y\<close> h hv Cons.IH show ?thesis
        by (simp add: hit_set_visible Let_def)
    next
      case False
      with \<open>hit out w x y\<close> h hv show ?thesis
        by (cases res) (auto simp: hit_set_visible split: bool.splits)
    qed
  qed
qed

lemmas screen_eval_defs =
  stacked_def lower_button_def upper_button_def brightness_slider_def
  Button_init_def Slider_init_def Screen_handle_touch_def
  Button_handle_touch_def contains_point_def get_terminal_size_def term_coord_def py_int_def
  ustr_def Let_def

text \<open>
  C6, as stated, fails: \<open>Screen.handle_touch\<close> never reads \<open>visible\<close>. A press on two
  overlapping buttons, the upper one invisible, is hit-tested against the invisible
  button and dispatched to it: it becomes pressed and consumes the gesture.
\<close>

theorem invisible_button_pressed:
  "\<not> is_visible (overlapping ! 1) \<and>
   steps (Screen_handle_touch None ''press'' 400 240 overlapping) =
     [HitTest 2, HitTest 1, Dispatch 1] \<and>
   returned (Screen_handle_touch None ''press'' 400 240 overlapping) = Inr True \<and>
   widgets_after (Screen_handle_touch None ''press'' 400 240 overlapping) =
     [Button lower_button, Button (hidden_button\<lparr>pressed := True\<rparr>), Slider brightness_slider]"
  by (simp add: overlapping_def hidden_button_def screen_eval_defs)

text \<open>
  C6, amended. \<open>Screen.handle_touch\<close> does not depend on the \<open>visible\<close> flags: with
  every flag set to any value it makes the same hit tests and dispatches, invokes the
  same callbacks, returns the same and leaves the same widgets but for the flags. So a
  widget whose flag is false takes part like a visible one: when it is the topmost widget
  that contains the point, it is hit-tested and the gesture is dispatched to it.
\<close>

theorem visible_flag_ignored:
  "Screen_handle_touch out ev x y (map (set_visible v) ws) =
     (Screen_handle_touch out ev x y ws)
       \<lparr>widgets_after := map (set_visible v) (widgets_after (Screen_handle_touch out ev x y ws))\<rparr> \<and>
   (i < length ws \<and> \<not> is_visible (ws ! i) \<and> hit out (ws ! i) x y \<and>
    (\<forall>j. i < j \<and> j < length ws \<longrightarrow> \<not> hit out (ws ! j) x y) \<longrightarrow>
      HitTest i \<in> set (steps (Screen_handle_touch out ev x y ws)) \<and>
      Dispatch i \<in> set (steps (Screen_handle_touch out ev x y ws)) \<and>
      widgets_after (Screen_handle_touch out ev x y ws) ! i = fst (handle_touch out ev x y (ws ! i)))"
proof
  show "Screen_handle_touch out ev x y (map (set_visible v) ws) =
     (Screen_handle_touch out ev x y ws)
       \<lparr>widgets_after := map (set_visible v) (widgets_after (Screen_handle_touch out ev x y ws))\<rparr>"
    by (simp add: Screen_handle_touch_def Let_def rev_map touch_reversed_set_visible)
next
  show "i < length ws \<and> \<not> is_visible (ws ! i) \<and> hit out (ws ! i) x y \<and>
    (\<forall>j. i < j \<and> j < length ws \<longrightarrow> \<not> hit out (ws ! j) x y) \<longrightarrow>
      HitTest i \<in> set (steps (Screen_handle_touch out ev x y ws)) \<and>
      Dispatch i \<in> set (steps (Screen_handle_touch out ev x y ws)) \<and>
      widgets_after (Screen_handle_touch out ev x y ws) ! i = fst (handle_touch out ev x y (ws ! i))"
  proof
    assume a: "i < length ws \<and> \<not> is_visible (ws ! i) \<and> hit out (ws ! i) x y \<and>
      (\<forall>j. i < j \<and> j < length ws \<longrightarrow> \<not> hit out (ws ! j) x y)"
    then have "i < length ws" "hit out (ws ! i) x y"
      "\<forall>j. i < j \<and> j < length ws \<longrightarrow> \<not> hit out (ws ! j) x y"
      by simp_all
    from topmost_dispatch[OF this, of ev] obtain more where
      s: "steps (Screen_handle_touch out ev x y ws) =
            map HitTest (rev [i..<length ws]) @ Dispatch i # more"
      and w: "widgets_after (Screen_handle_touch out ev x y ws) ! i =
           fst (handle_touch out ev x y (ws ! i))"
      by auto
    from a have "i \<in> set [i..<length ws]"
      by simp
    with s w show "HitTest i \<in> set (steps (Screen_handle_touch out ev x y ws)) \<and>
      Dispatch i \<in> set (steps (Screen_handle_touch out ev x y ws)) \<and>
      widgets_after (Screen_handle_touch out ev x y ws) ! i = fst (handle_touch out ev x y (ws ! i))"
      by simp
  qed
qed

theorem visible_flag_ignored_witness:
  "(1 :: nat) < length overlapping \<and> \<not> is_visible (overlapping ! 1) \<and>
   hit None (overlapping ! 1) 400 240 \<and> \<not> hit None (overlapping ! 2) 400 240 \<and>
   HitTest 1 \<in> set (steps (Screen_handle_touch None ''press'' 400 240 overlapping)) \<and>
   Dispatch 1 \<in> set (steps (Screen_handle_touch None ''press'' 400 240 overlapping)) \<and>
   widgets_after (Screen_handle_touch None ''press'' 400 240 overlapping) ! 1 =
     Button (hidden_button\<lparr>pressed := True\<rparr>) \<and>
   map (set_visible True) overlapping = stacked \<and>
   Screen_handle_touch None ''press'' 400 240 stacked =
     (Screen_handle_touch None ''press'' 400 240 overlapping)
       \<lparr>widgets_after := map (set_visible True)
          (widgets_after (Screen_handle_touch None ''press'' 400 240 overlapping))\<rparr>"
proof -
  have a: "(1 :: nat) < length overlapping" "\<not> is_visible (overlapping ! 1)"
    "hit None (overlapping ! 1) 400 240" "\<not> hit None (overlapping ! 2) 400 240"
    by (simp_all add: overlapping_def hidden_button_def screen_eval_defs)
  have top: "\<forall>j. 1 < j \<and> j < length overlapping \<longrightarrow> \<not> hit None (overlapping ! j) 400 240"
  proof (intro allI impI)
    fix j
    assume "1 < j \<and> j < length overlapping"
    then have "j = 2"
      by (simp add: overlapping_def)
    with a(4) show "\<not> hit None (overlapping ! j) 400 240"
      by simp
  qed
  have m: "map (set_visible True) overlapping = stacked"
    by (simp add: overlapping_def stacked_def hidden_button_def upper_button_def Button_init_def
        lower_button_def brightness_slider_def Slider_init_def)
  have h: "fst (handle_touch None ''press'' 400 240 (overlapping ! 1)) =
             Button (hidden_button\<lparr>pressed := True\<rparr>)"
    by (simp add: overlapping_def Button_handle_touch_def)
  from visible_flag_ignored[of None "''press''" 400 240 True overlapping 1] a top h m
  show ?thesis
    by simp
qed

lemma touch_reversed_at_hit:
  assumes "\<forall>p \<in> set pre. \<not> hit out p x y" "hit out w x y"
    and "handle_touch out ev x y w = (w', calls, res)"
  shows "touch_reversed out ev x y (pre @ w # rest) =
           (if res = Inr False
            then \<lparr>widgets_after = pre @ w' # widgets_after (touch_reversed out ev x y rest),
                  invoked = calls @ invoked (touch_reversed out ev x y rest),
                  steps = map HitTest (rev [Suc (length rest)..<Suc (length rest) + length pre]) @
                          HitTest (length rest) # Dispatch (length rest) #
                          steps (touch_reversed out ev x y rest),
                  returned = returned (touch_reversed out ev x y rest)\<rparr>
            else \<lparr>widgets_after = pre @ w' # rest, invoked = calls,
                  steps = map HitTest (rev [Suc (length rest)..<Suc (length rest) + length pre]) @
                          [HitTest (length rest), Dispatch (length rest)],
                  returned = res\<rparr>)"
  using assms(1)
proof (induction pre)
  case Nil
  show ?case
  proof (cases "res = Inr False")
    case True
    with assms(2,3) show ?thesis
      by (simp add: Let_def)
  next
    case False
    with assms(2,3) show ?thesis
      by (cases res) (auto split: bool.splits)
  qed
next
  case (Cons p pre)
  then have nohit: "\<not> hit out p x y" and rest: "\<forall>p \<in> set pre. \<not> hit out p x y"
    by simp_all
  have "touch_reversed out ev x y ((p # pre) @ w # rest) =
          (touch_reversed out ev x y (pre @ w # rest))
            \<lparr>widgets_after := p # widgets_after (touch_reversed out ev x y (pre @ w # rest)),
             steps := HitTest (Suc (length rest) + length pre) #
                      steps (touch_reversed out ev x y (pre @ w # rest))\<rparr>"
    using nohit by (simp add: Let_def)
  then show ?case
    unfolding Cons.IH[OF rest] by simp
qed

lemma topmost_outcome:
  assumes "i < length ws" "hit out (ws ! i) x y"
    and "\<forall>j. i < j \<and> j < length ws \<longrightarrow> \<not> hit out (ws ! j) x y"
    and "handle_touch out ev x y (ws ! i) = (w', calls, res)"
  shows "Screen_handle_touch out ev x y ws =
           (if res = Inr False
            then \<lparr>widgets_after =
                    widgets_after (Screen_handle_touch out ev x y (take i ws)) @ w' # drop (Suc i) ws,
                  invoked = calls @ invoked (Screen_handle_touch out ev x y (take i ws)),
                  steps = map HitTest (rev [i..<length ws]) @ Dispatch i #
                          steps (Screen_handle_touch out ev x y (take i ws)),
                  returned = returned (Screen_handle_touch out ev x y (take i ws))\<rparr>
            else \<lparr>widgets_after = ws[i := w'], invoked = calls,
                  steps = map HitTest (rev [i..<length ws]) @ [Dispatch i],
                  returned = res\<rparr>)"
proof -
  let ?pre = "rev (drop (Suc i) ws)" and ?rest = "rev (take i ws)"
  from assms(1) have ws: "ws = take i ws @ ws ! i # drop (Suc i) ws"
    by (simp add: id_take_nth_drop)
  then have "rev ws = rev (drop (Suc i) ws) @ rev (ws ! i # []) @ rev (take i ws)"
    by (metis rev_append append_assoc rev.simps(2) append_Cons append_Nil)
  then have r: "rev ws = ?pre @ ws ! i # ?rest"
    by simp
  have nohit: "\<forall>p \<in> set ?pre. \<not> hit out p x y"
  proof
    fix p
    assume "p \<in> set ?pre"
    then have "p \<in> set (drop (Suc i) ws)"
      by simp
    then obtain k where "k < length (drop (Suc i) ws)" "p = drop (Suc i) ws ! k"
      by (auto simp: in_set_conv_nth)
    then have "p = ws ! (Suc i + k)" "Suc i + k < length ws"
      by auto
    with assms(3) show "\<not> hit out p x y"
      by simp
  qed
  from assms(1) have lp: "Suc i + length ?pre = length ws"
    by simp
  from assms(1) have lr: "length ?rest = i"
    by simp
  from assms(1) have u: "[i..<length ws] = i # [Suc i..<length ws]"
    by (rule upt_conv_Cons)
  have upd: "take i ws @ w' # drop (Suc i) ws = ws[i := w']"
    using assms(1) by (simp add: upd_conv_take_nth_drop)
  have t: "touch_reversed out ev x y (rev ws) =
           (if res = Inr False
            then \<lparr>widgets_after = ?pre @ w' # widgets_after (touch_reversed out ev x y ?rest),
                  invoked = calls @ invoked (touch_reversed out ev x y ?rest),
                  steps = map HitTest (rev [Suc i..<length ws]) @ HitTest i # Dispatch i #
                          steps (touch_reversed out ev x y ?rest),
                  returned = returned (touch_reversed out ev x y ?rest)\<rparr>
            else \<lparr>widgets_after = ?pre @ w' # ?rest, invoked = calls,
                  steps = map HitTest (rev [Suc i..<length ws]) @ [HitTest i, Dispatch i],
                  returned = res\<rparr>)"
    using touch_reversed_at_hit[OF nohit assms(2) assms(4), of ?rest]
    unfolding lr lp r[symmetric] .
  show ?thesis
    unfolding Screen_handle_touch_def Let_def t
    by (simp add: u upd)
qed

text \<open>
  C8. When the widget at index \<open>i\<close> contains the touch point and no widget after it in
  \<open>self.widgets\<close> (drawn later, so above it) does, \<open>Screen.handle_touch\<close> hit-tests the
  widgets from the last one down to \<open>i\<close>, in reverse of the draw order, and dispatches
  the gesture to the widget \<open>i\<close> before any other. When that widget's \<open>handle_touch\<close>
  returns true (or raises), the call ends there: nothing else is hit-tested or
  dispatched, only the callbacks of widget \<open>i\<close> are invoked, only widget \<open>i\<close> changes,
  and the result is that widget's. Only when it returns false does the loop go on, in
  the same way, with the widgets below it.
\<close>

theorem topmost_widget_receives:
  assumes "i < length ws" "hit out (ws ! i) x y"
    and "\<forall>j. i < j \<and> j < length ws \<longrightarrow> \<not> hit out (ws ! j) x y"
  shows "(\<exists>more. steps (Screen_handle_touch out ev x y ws) =
            map HitTest (rev [i..<length ws]) @ Dispatch i # more) \<and>
         widgets_after (Screen_handle_touch out ev x y ws) ! i =
           fst (handle_touch out ev x y (ws ! i)) \<and>
         (snd (snd (handle_touch out ev x y (ws ! i))) \<noteq> Inr False \<longrightarrow>
            Screen_handle_touch out ev x y ws =
              \<lparr>widgets_after = ws[i := fst (handle_touch out ev x y (ws ! i))],
               invoked = fst (snd (handle_touch out ev x y (ws ! i))),
               steps = map HitTest (rev [i..<length ws]) @ [Dispatch i],
               returned = snd (snd (handle_touch out ev x y (ws ! i)))\<rparr>) \<and>
         (snd (snd (handle_touch out ev x y (ws ! i))) = Inr False \<longrightarrow>
            Screen_handle_touch out ev x y ws =
              \<lparr>widgets_after =
                 widgets_after (Screen_handle_touch out ev x y (take i ws)) @
                 fst (handle_touch out ev x y (ws ! i)) # drop (Suc i) ws,
               invoked = fst (snd (handle_touch out ev x y (ws ! i))) @
                 invoked (Screen_handle_touch out ev x y (take i ws)),
               steps = map HitTest (rev [i..<length ws]) @ Dispatch i #
                 steps (Screen_handle_touch out ev x y (take i ws)),
               returned = returned (Screen_handle_touch out ev x y (take i ws))\<rparr>)"
proof -
  obtain w' calls res where h: "handle_touch out ev x y (ws ! i) = (w', calls, res)"
    by (cases "handle_touch out ev x y (ws ! i)") auto
  from topmost_dispatch[OF assms, of ev] topmost_outcome[OF assms h] show ?thesis
    by (simp add: h)
qed

theorem topmost_widget_receives_witness:
  "(1 :: nat) < length stacked \<and> hit None (stacked ! 0) 400 240 \<and> hit None (stacked ! 1) 400 240 \<and>
   \<not> hit None (stacked ! 2) 400 240 \<and> is_visible (stacked ! 0) \<and> is_visible (stacked ! 1) \<and>
   Screen_handle_touch None ''press'' 400 240 stacked =
     \<lparr>widgets_after = pressed_stack, invoked = [],
      steps = [HitTest 2, HitTest 1, Dispatch 1], returned = Inr True\<rparr> \<and>
   Screen_handle_touch None ''tap'' 400 240 pressed_stack =
     \<lparr>widgets_after = stacked, invoked = [Invoke ''dismiss''],
      steps = [HitTest 2, HitTest 1, Dispatch 1], returned = Inr True\<rparr> \<and>
   Screen_handle_touch None ''double_tap'' 400 240 stacked =
     \<lparr>widgets_after = stacked, invoked = [],
      steps = [HitTest 2, HitTest 1, Dispatch 1, HitTest 0, Dispatch 0], returned = Inr False\<rparr>"
proof -
  have a: "(1 :: nat) < length stacked" "hit None (stacked ! 0) 400 240"
    "hit None (stacked ! 1) 400 240" "\<not> hit None (stacked ! 2) 400 240"
    "is_visible (stacked ! 0)" "is_visible (stacked ! 1)"
    by (simp_all add: screen_eval_defs)
  have top: "\<forall>j. 1 < j \<and> j < length stacked \<longrightarrow> \<not> hit None (stacked ! j) 400 240"
  proof (intro allI impI)
    fix j
    assume "1 < j \<and> j < length stacked"
    then have "j = 2"
      by (simp add: stacked_def)
    with a(4) show "\<not> hit None (stacked ! j) 400 240"
      by simp
  qed
  have b: "(1 :: nat) < length pressed_stack" "hit None (pressed_stack ! 1) 400 240"
    by (simp_all add: pressed_stack_def screen_eval_defs)
  have btop: "\<forall>j. 1 < j \<and> j < length pressed_stack \<longrightarrow> \<not> hit None (pressed_stack ! j) 400 240"
  proof (intro allI impI)
    fix j
    assume "1 < j \<and> j < length pressed_stack"
    then have "j = 2"
      by (simp add: pressed_stack_def)
    then show "\<not> hit None (pressed_stack ! j) 400 240"
      by (simp add: pressed_stack_def screen_eval_defs)
  qed
  have rng: "rev [1..<length stacked] = [2, 1]" "rev [1..<length pressed_stack] = [2, 1]"
    by (simp_all add: stacked_def pressed_stack_def upt_rec)
  have press: "handle_touch None ''press'' 400 240 (stacked ! 1) =
      (Button (upper_button\<lparr>pressed := True\<rparr>), [], Inr True)"
    "stacked[1 := Button (upper_button\<lparr>pressed := True\<rparr>)] = pressed_stack"
    by (simp_all add: stacked_def pressed_stack_def Button_handle_touch_def)
  have tap: "handle_touch None ''tap'' 400 240 (pressed_stack ! 1) =
      (Button upper_button, [Invoke ''dismiss''], Inr True)"
    "pressed_stack[1 := Button upper_button] = stacked"
    by (simp_all add: stacked_def pressed_stack_def Button_handle_touch_def upper_button_def
        Button_init_def)
  have dbl: "handle_touch None ''double_tap'' 400 240 (stacked ! 1) =
      (Button upper_button, [], Inr False)"
    "Screen_handle_touch None ''double_tap'' 400 240 (take 1 stacked) =
      \<lparr>widgets_after = [Button lower_button], invoked = [],
       steps = [HitTest 0, Dispatch 0], returned = Inr False\<rparr>"
    "[Button lower_button] @ Button upper_button # drop (Suc 1) stacked = stacked"
    by (simp_all add: screen_eval_defs)
  have upd: "stacked[Suc 0 := Button (upper_button\<lparr>pressed := True\<rparr>)] = pressed_stack"
    "pressed_stack[Suc 0 := Button upper_button] = stacked"
    "Button lower_button # Button upper_button # drop (Suc (Suc 0)) stacked = stacked"
    by (simp_all add: stacked_def pressed_stack_def upper_button_def Button_init_def)
  have low: "Screen_handle_touch None ''double_tap'' 400 240 (take (Suc 0) stacked) =
      \<lparr>widgets_after = [Button lower_button], invoked = [],
       steps = [HitTest 0, Dispatch 0], returned = Inr False\<rparr>"
    using dbl(2) by simp
  from topmost_widget_receives[OF a(1) a(3) top, of "''press''", unfolded press rng]
  have c: "Screen_handle_touch None ''press'' 400 240 stacked =
     \<lparr>widgets_after = pressed_stack, invoked = [],
      steps = [HitTest 2, HitTest 1, Dispatch 1], returned = Inr True\<rparr>"
    by (simp add: upd)
  from topmost_widget_receives[OF b btop, of "''tap''", unfolded tap rng]
  have d: "Screen_handle_touch None ''tap'' 400 240 pressed_stack =
     \<lparr>widgets_after = stacked, invoked = [Invoke ''dismiss''],
      steps = [HitTest 2, HitTest 1, Dispatch 1], returned = Inr True\<rparr>"
    by (simp add: upd)
  from topmost_widget_receives[OF a(1) a(3) top, of "''double_tap''", unfolded dbl rng]
  have e: "Screen_handle_touch None ''double_tap'' 400 240 stacked =
     \<lparr>widgets_after = stacked, invoked = [],
      steps = [HitTest 2, HitTest 1, Dispatch 1, HitTest 0, Dispatch 0], returned = Inr False\<rparr>"
    by (simp add: upd low)
  from a c d e show ?thesis
    by simp
qed

section \<open>Properties of the hand-off screens\<close>







end
